theory Spec2Isabelle
  imports Complex_Main
begin

section \<open>The squashed Gaussian policy of softlearning/policies/gaussian_policy.py\<close>

text \<open>
  The policy is a TensorFlow graph over float tensors.  The development reads every tensor
  entry as a real number, so \<open>tf.exp\<close>, \<open>tf.log\<close>, \<open>tf.nn.tanh\<close> and \<open>tf.atanh\<close> are
  \<^term>\<open>exp\<close>, \<^term>\<open>ln\<close>, \<^term>\<open>tanh\<close> and \<^term>\<open>artanh\<close> on \<^typ>\<open>real\<close>.  A value
  that TensorFlow would report as NaN or as an infinity (the logarithm of a non-positive
  number, a division by zero) has no real counterpart; it is \<^term>\<open>None\<close> in an
  \<^typ>\<open>real option\<close>.  Rounding is outside the model, except that of the squash, whose
  binary32 result decides two of the properties below.

  Every operation of the graph acts row by row on its leading batch axis.  A rank-one
  tensor is a list of reals, a batch is a list of rows.
\<close>

type_synonym vec = "real list"
type_synonym batch = "real list list"

subsection \<open>Numeric primitives of the tensor library\<close>

definition softplus :: "real \<Rightarrow> real" where
  "softplus x = ln (1 + exp x)"

text \<open>\<open>tf.clip_by_value(t, lo, hi)\<close> is \<open>minimum(maximum(t, lo), hi)\<close>, entry by entry.\<close>

definition clip_by_value :: "real \<Rightarrow> real \<Rightarrow> real \<Rightarrow> real" where
  "clip_by_value t clip_value_min clip_value_max = min (max t clip_value_min) clip_value_max"

text \<open>\<open>tf.split(t, num_or_size_splits=2, axis=-1)\<close>: two halves of the last axis.\<close>

definition split2 :: "vec \<Rightarrow> vec \<times> vec" where
  "split2 t = (take (length t div 2) t, drop (length t div 2) t)"

text \<open>\<open>tf.concat(xs, axis=-1)\<close> on a list of batches: the rows are joined position-wise.\<close>

fun concat_last :: "batch list \<Rightarrow> batch" where
  "concat_last [] = []"
| "concat_last [x] = x"
| "concat_last (x # xs) = map2 (@) x (concat_last xs)"

subsection \<open>SquashBijector and the module constant\<close>

text \<open>
  \<open>SquashBijector._forward_log_det_jacobian\<close>, line 14 of the source:
  \<open>2.0 * (tf.log(2.0) - x - tf.nn.softplus(-2.0 * x))\<close>, entry by entry.
\<close>

definition SquashBijector_forward_log_det_jacobian :: "real \<Rightarrow> real" where
  "SquashBijector_forward_log_det_jacobian x = 2 * (ln 2 - x - softplus (- 2 * x))"

definition SCALE_DIAG_MIN_MAX :: "real \<times> real" where
  "SCALE_DIAG_MIN_MAX = (- 20, 2)"

subsection \<open>Bijectors of the probability library\<close>

text \<open>
  The three bijectors the policy builds, and their composition.  A bijector whose
  parameters carry a batch axis is a batch of independent bijectors, so each of them is
  given here for one row (one event of dimension A).
   \<^item> \<open>Affine(shift, scale_diag)\<close>: \<open>forward(x) = scale_diag * x + shift\<close>.
   \<^item> \<open>SquashBijector()\<close>: the library's \<open>Tanh\<close> with the forward log-det-Jacobian
     replaced by the method above; \<open>forward = tanh\<close>, \<open>inverse = atanh\<close> and
     \<open>inverse_log_det_jacobian(y) = -log1p(-y^2)\<close> are inherited.
   \<^item> \<open>Identity()\<close>.
   \<^item> \<open>Chain(bs)\<close>: \<open>forward\<close> applies the members last to first, \<open>inverse\<close> first to
     last.
\<close>

datatype bijector =
    Affine vec vec
  | SquashBijector
  | Identity
  | Chain "bijector list"

text \<open>
  \<open>forward\<close> is the exact-arithmetic reading of the forward maps.  The one rounding that
  changes what the policy can return, that of \<open>tf.nn.tanh\<close> to binary32, is modelled
  apart, in \<open>forward_float32\<close> below.
\<close>

fun forward :: "bijector \<Rightarrow> vec \<Rightarrow> vec" where
  "forward (Affine shift scale_diag) x = map2 (+) (map2 (*) scale_diag x) shift"
| "forward SquashBijector x = map tanh x"
| "forward Identity x = x"
| "forward (Chain bs) x = foldr (\<lambda>b acc. forward b acc) bs x"

text \<open>
  \<open>atanh\<close> is finite on the open interval (-1, 1) only, and the division by a zero
  scale is not a real number: those rows have no inverse image.
\<close>

fun inverse_bij :: "bijector \<Rightarrow> vec \<Rightarrow> vec option" where
  "inverse_bij (Affine shift scale_diag) y =
     (if 0 \<in> set scale_diag then None
      else Some (map2 (\<lambda>d s. d / s) (map2 (-) y shift) scale_diag))"
| "inverse_bij SquashBijector y =
     (if list_all (\<lambda>v. - 1 < v \<and> v < 1) y then Some (map artanh y) else None)"
| "inverse_bij Identity y = Some y"
| "inverse_bij (Chain bs) y =
     fold (\<lambda>b acc. case acc of None \<Rightarrow> None | Some v \<Rightarrow> inverse_bij b v) bs (Some y)"

text \<open>
  The log-det-Jacobians are reduced over the event axis (\<open>event_ndims = 1\<close>).  The chain
  accumulates the terms of its members along the inversion path.
\<close>

fun forward_log_det_jacobian :: "bijector \<Rightarrow> vec \<Rightarrow> real" where
  "forward_log_det_jacobian (Affine shift scale_diag) x = (\<Sum>s\<leftarrow>scale_diag. ln \<bar>s\<bar>)"
| "forward_log_det_jacobian SquashBijector x =
     (\<Sum>v\<leftarrow>x. SquashBijector_forward_log_det_jacobian v)"
| "forward_log_det_jacobian Identity x = 0"
| "forward_log_det_jacobian (Chain bs) x =
     snd (foldr (\<lambda>b (v, acc). (forward b v, acc + forward_log_det_jacobian b v)) bs (x, 0))"

fun inverse_log_det_jacobian :: "bijector \<Rightarrow> vec \<Rightarrow> real option" where
  "inverse_log_det_jacobian (Affine shift scale_diag) y =
     (if 0 \<in> set scale_diag then None else Some (- (\<Sum>s\<leftarrow>scale_diag. ln \<bar>s\<bar>)))"
| "inverse_log_det_jacobian SquashBijector y =
     (if list_all (\<lambda>v. - 1 < v \<and> v < 1) y then Some (\<Sum>v\<leftarrow>y. - ln (1 - v\<^sup>2)) else None)"
| "inverse_log_det_jacobian Identity y = Some 0"
| "inverse_log_det_jacobian (Chain bs) y =
     map_option snd
       (fold (\<lambda>b st. case st of
                 None \<Rightarrow> None
               | Some (v, acc) \<Rightarrow>
                   (case (inverse_log_det_jacobian b v, inverse_bij b v) of
                      (Some j, Some v') \<Rightarrow> Some (v', acc + j)
                    | _ \<Rightarrow> None))
          bs (Some (y, 0)))"

subsection \<open>Distributions of the probability library\<close>

text \<open>
  \<open>MultivariateNormalDiag(loc=zeros(A), scale_diag=ones(A)).log_prob(x)\<close>: the sum over
  the event axis of the standard normal log-density.
\<close>

definition base_distribution_log_prob :: "vec \<Rightarrow> real" where
  "base_distribution_log_prob x = (\<Sum>z\<leftarrow>x. - (z\<^sup>2) / 2 - ln (2 * pi) / 2)"

text \<open>
  \<open>ConditionalTransformedDistribution(distribution, bijector).log_prob(y)\<close>: the base
  log-density at \<open>bijector.inverse(y)\<close> plus \<open>bijector.inverse_log_det_jacobian(y)\<close>.
\<close>

definition transformed_log_prob :: "bijector \<Rightarrow> vec \<Rightarrow> real option" where
  "transformed_log_prob b y =
     (case inverse_bij b y of
        None \<Rightarrow> None
      | Some x \<Rightarrow>
          (case inverse_log_det_jacobian b y of
             None \<Rightarrow> None
           | Some ildj \<Rightarrow> Some (base_distribution_log_prob x + ildj)))"

text \<open>
  \<open>base_distribution.sample(batch_size)\<close> draws \<open>batch_size\<close> vectors of dimension A.  The
  values the random generator returns in one run of the graph are an argument:
  \<open>draw i j\<close> is coordinate \<open>j\<close> of the \<open>i\<close>-th vector drawn in that run.  The generator
  itself, whose state moves on from one run to the next, is \<open>actions_call\<close> below.
\<close>

definition sample :: "(nat \<Rightarrow> nat \<Rightarrow> real) \<Rightarrow> nat \<Rightarrow> nat \<Rightarrow> batch" where
  "sample draw A batch_size = map (\<lambda>i. map (draw i) [0..<A]) [0..<batch_size]"

subsection \<open>Dense layers of the network library\<close>

text \<open>
  The activations are given to \<open>Dense\<close> by name; the entry-wise ones are modelled.
\<close>

datatype keras_activation = Relu | Linear | Tanh | Sigmoid | Softplus

fun activation_fn :: "keras_activation \<Rightarrow> real \<Rightarrow> real" where
  "activation_fn Relu x = max x 0"
| "activation_fn Linear x = x"
| "activation_fn Tanh x = tanh x"
| "activation_fn Sigmoid x = 1 / (1 + exp (- x))"
| "activation_fn Softplus x = softplus x"

text \<open>
  \<open>Dense(units, activation)(x)\<close> is \<open>activation(matmul(x, kernel) + bias)\<close> with a kernel of
  shape (input dimension, units) and a bias of shape (units).  The weights are read by
  index: \<open>W i j\<close> is the kernel's entry in row \<open>i\<close> and column \<open>j\<close>, \<open>b j\<close> the
  bias of unit \<open>j\<close>.
\<close>

definition Dense ::
  "(nat \<Rightarrow> nat \<Rightarrow> real) \<Rightarrow> (nat \<Rightarrow> real) \<Rightarrow> nat \<Rightarrow> keras_activation \<Rightarrow> vec \<Rightarrow> vec" where
  "Dense W b units act x =
     map (\<lambda>j. activation_fn act ((\<Sum>i\<leftarrow>[0..<length x]. x ! i * W i j) + b j)) [0..<units]"

subsection \<open>GaussianPolicy\<close>

text \<open>
  The object built by \<open>GaussianPolicy.__init__\<close>: its arguments, and the values of the
  trainable variables of the Dense layers it creates (\<open>kernels k\<close> and \<open>biases k\<close> belong
  to the \<open>k\<close>-th Dense layer, the output layer being the last).  Feature shapes are
  rank one: \<open>input_shapes\<close> lists the feature dimension of every conditioning source and
  \<open>output_shape\<close> is the action dimension A, the \<open>output_shape[0]\<close> of the source.
  The extra positional and keyword arguments, which the constructor hands to every
  \<open>Dense\<close> unchanged, are taken to be empty.
\<close>

record GaussianPolicy =
  input_shapes :: "nat list"
  output_shape :: nat
  hidden_layer_sizes :: "nat list"
  squash :: bool
  regularization_coeff :: real
  activation :: keras_activation
  output_activation :: keras_activation
  name :: "string option"
  kernels :: "nat \<Rightarrow> nat \<Rightarrow> nat \<Rightarrow> real"
  biases :: "nat \<Rightarrow> nat \<Rightarrow> real"

definition GaussianPolicy_init ::
  "nat list \<Rightarrow> nat \<Rightarrow> nat list \<Rightarrow> bool \<Rightarrow> real \<Rightarrow> keras_activation \<Rightarrow> keras_activation \<Rightarrow>
   string option \<Rightarrow> (nat \<Rightarrow> nat \<Rightarrow> nat \<Rightarrow> real) \<Rightarrow> (nat \<Rightarrow> nat \<Rightarrow> real) \<Rightarrow> GaussianPolicy" where
  "GaussianPolicy_init input_shapes' output_shape' hidden_layer_sizes' squash'
     regularization_coeff' activation' output_activation' name' kernel_values bias_values =
   \<lparr> input_shapes = input_shapes', output_shape = output_shape',
     hidden_layer_sizes = hidden_layer_sizes', squash = squash',
     regularization_coeff = regularization_coeff', activation = activation',
     output_activation = output_activation', name = name',
     kernels = kernel_values, biases = bias_values \<rparr>"

text \<open>Lines 46 to 49: the loop over \<open>hidden_layer_sizes\<close>; \<open>k\<close> counts the layers built.\<close>

fun hidden_layers :: "GaussianPolicy \<Rightarrow> nat \<Rightarrow> nat list \<Rightarrow> vec \<Rightarrow> vec" where
  "hidden_layers p k [] out = out"
| "hidden_layers p k (units # rest) out =
     hidden_layers p (Suc k) rest (Dense (kernels p k) (biases p k) units (activation p) out)"

text \<open>
  Lines 46 to 66, on one row of the concatenated conditions: the hidden stack, the
  output layer of \<open>output_shape[0] * 2\<close> units, the split into shift and log-scale, and
  the clipping of the log-scale.
\<close>

definition shift_and_log_scale_diag :: "GaussianPolicy \<Rightarrow> vec \<Rightarrow> vec \<times> vec" where
  "shift_and_log_scale_diag p conditions =
     (let out = hidden_layers p 0 (hidden_layer_sizes p) conditions;
          n = length (hidden_layer_sizes p);
          out = Dense (kernels p n) (biases p n) (output_shape p * 2) (output_activation p) out;
          (shift, log_scale_diag) = split2 out;
          log_scale_diag =
            map (\<lambda>l. clip_by_value l (fst SCALE_DIAG_MIN_MAX) (snd SCALE_DIAG_MIN_MAX))
              log_scale_diag
      in (shift, log_scale_diag))"

text \<open>Lines 79 to 85.\<close>

fun raw_actions_fn :: "vec \<times> vec \<times> vec \<Rightarrow> vec" where
  "raw_actions_fn (shift, log_scale_diag, latents) =
     forward (Affine shift (map exp log_scale_diag)) latents"

text \<open>Lines 91 to 94.\<close>

definition squash_bijector :: "GaussianPolicy \<Rightarrow> bijector" where
  "squash_bijector p = (if squash p then SquashBijector else Identity)"

text \<open>
  Lines 68 to 98, the graph of \<open>actions_model\<close>: one latent vector is drawn for every row
  of the concatenated conditions.
\<close>

definition raw_actions_model ::
  "GaussianPolicy \<Rightarrow> (nat \<Rightarrow> nat \<Rightarrow> real) \<Rightarrow> batch list \<Rightarrow> batch" where
  "raw_actions_model p draw condition_inputs =
     (let conditions = concat_last condition_inputs;
          params = map (shift_and_log_scale_diag p) conditions;
          batch_size = length conditions;
          latents = sample draw (output_shape p) batch_size
      in map2 (\<lambda>(shift, log_scale_diag) l. raw_actions_fn (shift, log_scale_diag, l))
           params latents)"

definition actions_model ::
  "GaussianPolicy \<Rightarrow> (nat \<Rightarrow> nat \<Rightarrow> real) \<Rightarrow> batch list \<Rightarrow> batch" where
  "actions_model p draw condition_inputs =
     map (forward (squash_bijector p)) (raw_actions_model p draw condition_inputs)"

text \<open>
  Lines 102 to 119: the log-probability of one row of candidate actions, as a row of
  length one (the \<open>[:, None]\<close> of the source).
\<close>

fun log_pis_fn :: "GaussianPolicy \<Rightarrow> vec \<times> vec \<times> vec \<Rightarrow> real option list" where
  "log_pis_fn p (shift, log_scale_diag, actions) =
     (let bijector = Chain [squash_bijector p, Affine shift (map exp log_scale_diag)]
      in [transformed_log_prob bijector actions])"

definition log_pis_model ::
  "GaussianPolicy \<Rightarrow> batch list \<Rightarrow> batch \<Rightarrow> real option list list" where
  "log_pis_model p condition_inputs actions_input =
     (let conditions = concat_last condition_inputs;
          params = map (shift_and_log_scale_diag p) conditions
      in map2 (\<lambda>(shift, log_scale_diag) a. log_pis_fn p (shift, log_scale_diag, a))
           params actions_input)"

subsection \<open>Public operations\<close>

text \<open>
  A call with tensors that do not fit the declared input layers is rejected by the
  backend; that is the only error of a call.  The batch sizes of all the tensors of a
  call have to agree: broadcasting of a batch of size one is not modelled.
\<close>

datatype error = ShapeError

definition conditions_ok :: "GaussianPolicy \<Rightarrow> batch list \<Rightarrow> bool" where
  "conditions_ok p cs =
     (cs \<noteq> [] \<and>
      list_all2 (\<lambda>c d. list_all (\<lambda>row. length row = d) c) cs (input_shapes p) \<and>
      list_all (\<lambda>c. length c = length (hd cs)) cs)"

definition actions_ok :: "GaussianPolicy \<Rightarrow> batch list \<Rightarrow> batch \<Rightarrow> bool" where
  "actions_ok p cs a =
     (length a = length (hd cs) \<and> list_all (\<lambda>row. length row = output_shape p) a)"

definition actions ::
  "GaussianPolicy \<Rightarrow> (nat \<Rightarrow> nat \<Rightarrow> real) \<Rightarrow> batch list \<Rightarrow> error + batch" where
  "actions p draw conditions =
     (if conditions_ok p conditions then Inr (actions_model p draw conditions)
      else Inl ShapeError)"

definition log_pis ::
  "GaussianPolicy \<Rightarrow> batch list \<Rightarrow> batch \<Rightarrow> error + real option list list" where
  "log_pis p conditions acts =
     (if conditions_ok p conditions \<and> actions_ok p conditions acts
      then Inr (log_pis_model p conditions acts)
      else Inl ShapeError)"

text \<open>\<open>predict\<close> evaluates the same graphs and returns the values as arrays.\<close>

definition actions_np ::
  "GaussianPolicy \<Rightarrow> (nat \<Rightarrow> nat \<Rightarrow> real) \<Rightarrow> batch list \<Rightarrow> error + batch" where
  "actions_np p draw conditions = actions p draw conditions"

definition log_pis_np ::
  "GaussianPolicy \<Rightarrow> batch list \<Rightarrow> batch \<Rightarrow> error + real option list list" where
  "log_pis_np p conditions acts = log_pis p conditions acts"

text \<open>
  \<open>trainable_variables\<close>: the kernel and the bias of every Dense layer of
  \<open>actions_model\<close>, in the order the layers were built.
\<close>

datatype variable = Kernel batch | Bias vec

definition layer_units :: "GaussianPolicy \<Rightarrow> nat list" where
  "layer_units p = hidden_layer_sizes p @ [output_shape p * 2]"

definition layer_inputs :: "GaussianPolicy \<Rightarrow> nat list" where
  "layer_inputs p = sum_list (input_shapes p) # hidden_layer_sizes p"

definition trainable_variables :: "GaussianPolicy \<Rightarrow> variable list" where
  "trainable_variables p =
     concat (map (\<lambda>k.
        [Kernel (map (\<lambda>i. map (kernels p k i) [0..<layer_units p ! k])
                   [0..<layer_inputs p ! k]),
         Bias (map (biases p k) [0..<layer_units p ! k])])
       [0..<length (layer_units p)])"

definition reset :: "GaussianPolicy \<Rightarrow> GaussianPolicy" where
  "reset p = p"

text \<open>\<open>get_diagnostics\<close> returns an empty ordered dictionary.\<close>

definition get_diagnostics :: "GaussianPolicy \<Rightarrow> nat \<Rightarrow> 'b \<Rightarrow> (string \<times> real) list" where
  "get_diagnostics p iteration batch = []"

subsection \<open>The squash in binary32\<close>

text \<open>
  The tensors of the graph are binary32 numbers.  \<open>float32_round\<close> is rounding to the
  nearest number with a significand of 24 bits; overflow, subnormal numbers and the
  rule for ties (taken upward here) are left out.  \<open>tf.nn.tanh\<close> is taken to return the
  rounded value of the exact hyperbolic tangent.
\<close>

definition float32_round :: "real \<Rightarrow> real" where
  "float32_round x =
     (if x = 0 then 0
      else (let ulp = 2 powr (of_int \<lfloor>log 2 \<bar>x\<bar>\<rfloor> - 23)
            in of_int (round (x / ulp)) * ulp))"

definition tanh_float32 :: "real \<Rightarrow> real" where
  "tanh_float32 x = float32_round (tanh x)"

text \<open>
  The forward maps with the rounded \<open>tanh\<close>, and the graph of \<open>actions_model\<close> (lines 96
  to 100) with them.  The arithmetic before the squash stays exact.
\<close>

fun forward_float32 :: "bijector \<Rightarrow> vec \<Rightarrow> vec" where
  "forward_float32 (Affine shift scale_diag) x = forward (Affine shift scale_diag) x"
| "forward_float32 SquashBijector x = map tanh_float32 x"
| "forward_float32 Identity x = x"
| "forward_float32 (Chain bs) x = foldr (\<lambda>b acc. forward_float32 b acc) bs x"

definition actions_model_float32 ::
  "GaussianPolicy \<Rightarrow> (nat \<Rightarrow> nat \<Rightarrow> real) \<Rightarrow> batch list \<Rightarrow> batch" where
  "actions_model_float32 p draw condition_inputs =
     map (forward_float32 (squash_bijector p)) (raw_actions_model p draw condition_inputs)"

definition actions_float32 ::
  "GaussianPolicy \<Rightarrow> (nat \<Rightarrow> nat \<Rightarrow> real) \<Rightarrow> batch list \<Rightarrow> error + batch" where
  "actions_float32 p draw conditions =
     (if conditions_ok p conditions then Inr (actions_model_float32 p draw conditions)
      else Inl ShapeError)"

subsection \<open>The stateful sampler\<close>





subsection \<open>A concrete policy\<close>

text \<open>
  One conditioning source with two features, one hidden layer of two units, a
  one-dimensional action; every kernel entry is \<open>w\<close> and every bias is 0.
\<close>

definition example_policy :: "bool \<Rightarrow> real \<Rightarrow> GaussianPolicy" where
  "example_policy sq w =
     GaussianPolicy_init [2] 1 [2] sq (1 / 1000) Relu Linear None (\<lambda>k i j. w) (\<lambda>k j. 0)"

text \<open>A latent draw with every coordinate 1/2, and a generator that counts.\<close>

definition half_draw :: "nat \<Rightarrow> nat \<Rightarrow> real" where
  "half_draw i j = 1 / 2"


section \<open>Properties\<close>

subsection \<open>The stable log-det-Jacobian of the squash bijector\<close>

lemma one_minus_quotient:
  fixes a b :: real
  assumes "b \<noteq> 0"
  shows "1 - a / b = (b - a) / b"
  using assms by (simp add: diff_divide_distrib)

lemma one_minus_ratio_sq:
  fixes e :: real
  assumes "0 < e"
  shows "1 - ((1 - e) / (1 + e))\<^sup>2 = 4 * e / (1 + e)\<^sup>2"
proof -
  have nz: "(1 + e)\<^sup>2 \<noteq> 0" using assms by simp
  have "((1 - e) / (1 + e))\<^sup>2 = (1 - e)\<^sup>2 / (1 + e)\<^sup>2"
    by (rule power_divide)
  then have "1 - ((1 - e) / (1 + e))\<^sup>2 = ((1 + e)\<^sup>2 - (1 - e)\<^sup>2) / (1 + e)\<^sup>2"
    using one_minus_quotient [OF nz] by simp
  also have "(1 + e)\<^sup>2 - (1 - e)\<^sup>2 = 4 * e"
    by (simp add: power2_eq_square algebra_simps)
  finally show ?thesis .
qed

lemma one_minus_tanh_sq: "1 - (tanh (x::real))\<^sup>2 = 4 * exp (- 2 * x) / (1 + exp (- 2 * x))\<^sup>2"
  unfolding tanh_real_altdef by (rule one_minus_ratio_sq) simp

lemma ln_4: "ln (4::real) = 2 * ln 2"
proof -
  have "ln ((2::real) ^ 2) = real 2 * ln 2" by (rule ln_realpow)
  then show ?thesis by simp
qed

lemma squash_fldj_eq: "SquashBijector_forward_log_det_jacobian x = ln (1 - (tanh x)\<^sup>2)"
proof -
  define e where "e = exp (- 2 * x)"
  have pos: "0 < e" "0 < 1 + e" by (simp_all add: e_def add_pos_pos)
  have "ln (1 - (tanh x)\<^sup>2) = ln (4 * e / (1 + e)\<^sup>2)"
    by (simp only: one_minus_tanh_sq e_def)
  also have "\<dots> = ln (4 * e) - ln ((1 + e)\<^sup>2)"
    using pos by (intro ln_divide_pos) auto
  also have "ln (4 * e) = ln 4 + ln e"
    using pos by (intro ln_mult_pos) auto
  also have "ln ((1 + e)\<^sup>2) = real 2 * ln (1 + e)"
    by (rule ln_realpow)
  finally have "ln (1 - (tanh x)\<^sup>2) = 2 * ln 2 + ln e - 2 * ln (1 + e)"
    by (simp add: ln_4)
  moreover have "ln e = - 2 * x" by (simp add: e_def)
  ultimately show ?thesis
    by (simp add: SquashBijector_forward_log_det_jacobian_def softplus_def e_def)
qed

lemma ln_one_plus_unit: 
  fixes e :: real
  assumes "0 < e" "e \<le> 1"
  shows "0 < ln (1 + e) \<and> ln (1 + e) \<le> ln 2"
proof
  show "0 < ln (1 + e)" using assms by (intro ln_gt_zero) simp
  show "ln (1 + e) \<le> ln 2" using assms by (subst ln_le_cancel_iff) auto
qed

lemma softplus_bounds: "max 0 t < softplus t \<and> softplus t \<le> max 0 t + ln 2"
proof (cases "t \<le> 0")
  case True
  have "0 < exp t" "exp t \<le> 1" using True by auto
  from ln_one_plus_unit [OF this] show ?thesis using True by (simp add: softplus_def max_def)
next
  case False
  have e: "1 + exp t = exp t * (1 + exp (- t))"
    by (simp add: algebra_simps exp_minus)
  have p: "0 < 1 + exp (- t)" by (simp add: add_pos_pos)
  have "ln (1 + exp t) = ln (exp t) + ln (1 + exp (- t))"
    unfolding e using p by (intro ln_mult_pos) auto
  then have s: "softplus t = t + ln (1 + exp (- t))" by (simp add: softplus_def)
  have "0 < exp (- t)" "exp (- t) \<le> 1" using False by auto
  from ln_one_plus_unit [OF this] show ?thesis using False s by (simp add: max_def)
qed

lemma squash_fldj_bounds:
  "- 2 * \<bar>x\<bar> \<le> SquashBijector_forward_log_det_jacobian x \<and>
   SquashBijector_forward_log_det_jacobian x < 2 * ln 2 - 2 * \<bar>x\<bar>"
  using softplus_bounds [of "- 2 * x"]
  by (auto simp: SquashBijector_forward_log_det_jacobian_def max_def abs_if split: if_splits)

text \<open>
  Claim C2.  At every real \<open>x\<close> the forward log-det-Jacobian of the squash bijector is
  \<open>2 * (log 2 - x - softplus (-2 x))\<close>, which equals \<open>log (1 - tanh(x)^2)\<close>; it lies
  between \<open>-2 |x|\<close> and \<open>2 log 2 - 2 |x|\<close>, so at \<open>x = 50\<close> and at \<open>x = -50\<close> it is a
  number between -100 and -98.
\<close>

theorem squash_fldj_stable:
  "forward_log_det_jacobian SquashBijector [x] = 2 * (ln 2 - x - softplus (- 2 * x)) \<and>
   SquashBijector_forward_log_det_jacobian x = ln (1 - (tanh x)\<^sup>2) \<and>
   - 2 * \<bar>x\<bar> \<le> SquashBijector_forward_log_det_jacobian x \<and>
   SquashBijector_forward_log_det_jacobian x < 2 * ln 2 - 2 * \<bar>x\<bar> \<and>
   - 100 \<le> SquashBijector_forward_log_det_jacobian 50 \<and>
   SquashBijector_forward_log_det_jacobian 50 < - 98 \<and>
   - 100 \<le> SquashBijector_forward_log_det_jacobian (- 50) \<and>
   SquashBijector_forward_log_det_jacobian (- 50) < - 98"
proof -
  have l2: "ln (2::real) < 1" by (rule ln_2_less_1)
  have a: "forward_log_det_jacobian SquashBijector [x] = 2 * (ln 2 - x - softplus (- 2 * x))"
    by (simp add: SquashBijector_forward_log_det_jacobian_def)
  have b: "- 100 \<le> SquashBijector_forward_log_det_jacobian 50 \<and>
   SquashBijector_forward_log_det_jacobian 50 < - 98"
    using squash_fldj_bounds [of 50] l2 by simp
  have c: "- 100 \<le> SquashBijector_forward_log_det_jacobian (- 50) \<and>
   SquashBijector_forward_log_det_jacobian (- 50) < - 98"
    using squash_fldj_bounds [of "- 50"] l2 by simp
  show ?thesis
    using a b c squash_fldj_bounds [of x] squash_fldj_eq [of x] by blast
qed

subsection \<open>The conditioner network\<close>

lemma length_Dense [simp]: "length (Dense W b units act x) = units"
  by (simp add: Dense_def)

lemma clip_bounds:
  "- 20 \<le> clip_by_value t (fst SCALE_DIAG_MIN_MAX) (snd SCALE_DIAG_MIN_MAX) \<and>
   clip_by_value t (fst SCALE_DIAG_MIN_MAX) (snd SCALE_DIAG_MIN_MAX) \<le> 2"
  by (simp add: clip_by_value_def SCALE_DIAG_MIN_MAX_def)

lemma shift_and_log_scale_diag_length:
  "length (fst (shift_and_log_scale_diag p c)) = output_shape p \<and>
   length (snd (shift_and_log_scale_diag p c)) = output_shape p"
  by (simp add: shift_and_log_scale_diag_def Let_def split2_def)

lemma log_scale_diag_bounds:
  assumes "l \<in> set (snd (shift_and_log_scale_diag p c))"
  shows "- 20 \<le> l \<and> l \<le> 2"
  using assms clip_bounds
  by (auto simp: shift_and_log_scale_diag_def Let_def split2_def)

lemma upt_0_2: "[0..<2] = [0, Suc 0]"
  by (simp add: numeral_2_eq_2)

lemma ex_clipped: "shift_and_log_scale_diag (example_policy sq 10) [1, 2] = ([600], [2])"
  by (simp add: example_policy_def GaussianPolicy_init_def shift_and_log_scale_diag_def Let_def split2_def Dense_def
    clip_by_value_def SCALE_DIAG_MIN_MAX_def upt_0_2)

lemma ex_moderate:
  "shift_and_log_scale_diag (example_policy sq (1 / 10)) [1, 2] = ([3 / 50], [3 / 50])"
  by (simp add: example_policy_def GaussianPolicy_init_def shift_and_log_scale_diag_def Let_def split2_def Dense_def
    clip_by_value_def SCALE_DIAG_MIN_MAX_def upt_0_2)

subsection \<open>Inverses and Jacobians of the bijectors\<close>

lemma tanh_artanh:
  fixes y :: real
  assumes "- 1 < y" "y < 1"
  shows "tanh (artanh y) = y"
proof -
  define r where "r = (1 + y) / (1 - y)"
  have rpos: "0 < r" using assms by (simp add: r_def)
  have "exp (- 2 * artanh y) = exp (- ln r)" by (simp add: artanh_def r_def)
  also have "\<dots> = inverse r" using rpos by (simp add: exp_minus)
  also have "\<dots> = (1 - y) / (1 + y)" by (simp add: r_def)
  finally have e: "exp (- 2 * artanh y) = (1 - y) / (1 + y)" .
  have nz: "1 + y \<noteq> 0" using assms by simp
  have "tanh (artanh y) = (1 - (1 - y) / (1 + y)) / (1 + (1 - y) / (1 + y))"
    by (simp only: tanh_real_altdef e)
  also have "\<dots> = y" using nz by (simp add: field_simps)
  finally show ?thesis .
qed

lemma squash_ildj_eq:
  fixes y :: real
  assumes "- 1 < y" "y < 1"
  shows "- ln (1 - y\<^sup>2) = - SquashBijector_forward_log_det_jacobian (artanh y)"
  by (simp add: squash_fldj_eq tanh_artanh [OF assms])

lemma forward_Affine_length:
  "length (forward (Affine shift scale_diag) x) = min (min (length scale_diag) (length x)) (length shift)"
  by simp

lemma forward_Affine_nth:
  assumes "j < length scale_diag" "j < length x" "j < length shift"
  shows "forward (Affine shift scale_diag) x ! j = shift ! j + scale_diag ! j * x ! j"
  using assms by simp

lemma inverse_forward_Affine:
  assumes "0 \<notin> set scale_diag" "length shift = length x" "length scale_diag = length x"
  shows "inverse_bij (Affine shift scale_diag) (forward (Affine shift scale_diag) x) = Some x"
proof -
  have "map2 (\<lambda>d s. d / s) (map2 (-) (map2 (+) (map2 (*) scale_diag x) shift) shift) scale_diag = x"
  proof (rule nth_equalityI)
    show "length (map2 (\<lambda>d s. d / s) (map2 (-) (map2 (+) (map2 (*) scale_diag x) shift) shift) scale_diag) = length x"
      using assms by simp
  next
    fix j assume "j < length (map2 (\<lambda>d s. d / s) (map2 (-) (map2 (+) (map2 (*) scale_diag x) shift) shift) scale_diag)"
    then have j: "j < length x" using assms by simp
    then have "scale_diag ! j \<in> set scale_diag" using assms by simp
    then have "scale_diag ! j \<noteq> 0" using assms(1) by metis
    then show "map2 (\<lambda>d s. d / s) (map2 (-) (map2 (+) (map2 (*) scale_diag x) shift) shift) scale_diag ! j = x ! j"
      using j assms by simp
  qed
  then show ?thesis using assms by simp
qed

lemma forward_inverse_Affine:
  assumes "0 \<notin> set scale_diag" "length shift = length y" "length scale_diag = length y"
  shows "\<exists>x. inverse_bij (Affine shift scale_diag) y = Some x \<and> length x = length y \<and>
             forward (Affine shift scale_diag) x = y"
proof -
  let ?x = "map2 (\<lambda>d s. d / s) (map2 (-) y shift) scale_diag"
  have "map2 (+) (map2 (*) scale_diag ?x) shift = y"
  proof (rule nth_equalityI)
    show "length (map2 (+) (map2 (*) scale_diag ?x) shift) = length y"
      using assms by simp
  next
    fix j assume "j < length (map2 (+) (map2 (*) scale_diag ?x) shift)"
    then have j: "j < length y" using assms by simp
    then have "scale_diag ! j \<in> set scale_diag" using assms by simp
    then have "scale_diag ! j \<noteq> 0" using assms(1) by metis
    then show "map2 (+) (map2 (*) scale_diag ?x) shift ! j = y ! j"
      using j assms by simp
  qed
  then show ?thesis using assms by simp
qed

lemma inverse_forward_Squash: "inverse_bij SquashBijector (forward SquashBijector x) = Some x"
proof -
  have "list_all (\<lambda>v. - 1 < v \<and> v < 1) (map tanh x)"
    by (simp add: list_all_iff tanh_real_lt_1 tanh_real_gt_neg1)
  moreover have "map artanh (map tanh x) = x"
    by (induction x) (simp_all add: artanh_tanh_real)
  ultimately show ?thesis by simp
qed

lemma forward_Chain2: "forward (Chain [b1, b2]) x = forward b1 (forward b2 x)"
  by simp

lemma inverse_Chain2:
  "inverse_bij (Chain [b1, b2]) y =
     (case inverse_bij b1 y of None \<Rightarrow> None | Some v \<Rightarrow> inverse_bij b2 v)"
  by simp

lemma fldj_Chain2:
  "forward_log_det_jacobian (Chain [b1, b2]) x =
     forward_log_det_jacobian b2 x + forward_log_det_jacobian b1 (forward b2 x)"
  by simp

lemma ildj_Chain2:
  "inverse_log_det_jacobian (Chain [b1, b2]) y =
     (case inverse_log_det_jacobian b1 y of
        None \<Rightarrow> None
      | Some j1 \<Rightarrow>
          (case inverse_bij b1 y of
             None \<Rightarrow> None
           | Some v \<Rightarrow>
               (case inverse_log_det_jacobian b2 v of
                  None \<Rightarrow> None
                | Some j2 \<Rightarrow>
                    (case inverse_bij b2 v of None \<Rightarrow> None | Some v' \<Rightarrow> Some (j1 + j2)))))"
  by (simp split: option.splits)

lemma exp_scale_nonzero: "0 \<notin> set (map exp (l :: real list))"
  by auto

lemma sum_ln_exp: "(\<Sum>s\<leftarrow>map exp (l :: real list). ln \<bar>s\<bar>) = sum_list l"
  by (induction l) auto

lemma squash_ildj_sum:
  assumes "list_all (\<lambda>v. - 1 < v \<and> v < 1) y"
  shows "(\<Sum>v\<leftarrow>y. - ln (1 - v\<^sup>2)) = - forward_log_det_jacobian SquashBijector (map artanh y)"
  using assms
proof (induction y)
  case Nil
  then show ?case by simp
next
  case (Cons v y)
  then have "- 1 < v" "v < 1" by simp_all
  from squash_ildj_eq [OF this] Cons show ?case by simp
qed

subsection \<open>Rows of the two graphs\<close>

lemma length_concat_last_all:
  assumes "cs \<noteq> []" "list_all (\<lambda>c. length c = n) cs"
  shows "length (concat_last cs) = n"
  using assms by (induction cs rule: concat_last.induct) auto

lemma length_concat_last:
  assumes "conditions_ok p cs"
  shows "length (concat_last cs) = length (hd cs)"
  using assms length_concat_last_all [of cs "length (hd cs)"]
  by (simp add: conditions_ok_def)

lemma length_sample [simp]: "length (sample draw A n) = n"
  by (simp add: sample_def)

lemma nth_sample: "i < n \<Longrightarrow> sample draw A n ! i = map (draw i) [0..<A]"
  by (simp add: sample_def)

lemma length_raw_actions_model [simp]:
  "length (raw_actions_model p draw cs) = length (concat_last cs)"
  by (simp add: raw_actions_model_def Let_def)

lemma nth_raw_actions_model:
  assumes "i < length (concat_last cs)"
    and "shift_and_log_scale_diag p (concat_last cs ! i) = (shift, log_scale_diag)"
  shows "raw_actions_model p draw cs ! i =
           forward (Affine shift (map exp log_scale_diag)) (map (draw i) [0..<output_shape p])"
  using assms by (simp add: raw_actions_model_def Let_def nth_sample)

lemma length_actions_model [simp]:
  "length (actions_model p draw cs) = length (concat_last cs)"
  by (simp add: actions_model_def)

lemma nth_actions_model:
  assumes "i < length (concat_last cs)"
    and "shift_and_log_scale_diag p (concat_last cs ! i) = (shift, log_scale_diag)"
  shows "actions_model p draw cs ! i =
           forward (squash_bijector p)
             (forward (Affine shift (map exp log_scale_diag)) (map (draw i) [0..<output_shape p]))"
  using assms by (simp add: actions_model_def nth_raw_actions_model)

lemma sld_lengths:
  assumes "shift_and_log_scale_diag p c = (shift, log_scale_diag)"
  shows "length shift = output_shape p" "length log_scale_diag = output_shape p"
  using shift_and_log_scale_diag_length [of p c] assms by simp_all

lemma length_forward_squash_bijector [simp]:
  "length (forward (squash_bijector p) x) = length x"
  by (simp add: squash_bijector_def)

lemma nth_forward_squash_bijector:
  "j < length x \<Longrightarrow> forward (squash_bijector p) x ! j = (if squash p then tanh (x ! j) else x ! j)"
  by (simp add: squash_bijector_def)

lemma length_raw_row:
  assumes "shift_and_log_scale_diag p c = (shift, log_scale_diag)"
  shows "length (forward (Affine shift (map exp log_scale_diag)) (map (draw i) [0..<output_shape p])) = output_shape p"
  using sld_lengths [OF assms] by simp

lemma nth_raw_row:
  assumes "shift_and_log_scale_diag p c = (shift, log_scale_diag)" "j < output_shape p"
  shows "forward (Affine shift (map exp log_scale_diag)) (map (draw i) [0..<output_shape p]) ! j
         = shift ! j + exp (log_scale_diag ! j) * draw i j"
  using sld_lengths [OF assms(1)] assms(2) by simp

lemma example_conditions_ok: "conditions_ok (example_policy sq w) [[[1, 2]]]"
  by (simp add: conditions_ok_def example_policy_def GaussianPolicy_init_def)

lemma example_output_shape: "output_shape (example_policy sq w) = 1"
  by (simp add: example_policy_def GaussianPolicy_init_def)

lemma example_squash: "squash (example_policy sq w) = sq"
  by (simp add: example_policy_def GaussianPolicy_init_def)


subsection \<open>The sampling path\<close>

text \<open>
  Claim C3.  With well-shaped conditions the call returns one row per row of the
  conditions, one latent vector being drawn per row; row \<open>i\<close> is the squash bijector (or
  the identity) applied to the affine image of the \<open>i\<close>-th latent vector, the shift and
  the log-scale being the conditioner outputs for row \<open>i\<close>.  Entry \<open>j\<close> of it is
  \<open>tanh (shift_j + exp (log_scale_diag_j) * latent_j)\<close> when squashing is on.  The latent
  values are an argument of the model, their distribution is not part of the statement.
\<close>

theorem actions_affine_then_squash:
  assumes "conditions_ok p cs"
    and "i < length (concat_last cs)"
    and "shift_and_log_scale_diag p (concat_last cs ! i) = (shift, log_scale_diag)"
    and "j < output_shape p"
  shows "\<exists>a. actions p draw cs = Inr a \<and>
             length a = length (hd cs) \<and>
             length (sample draw (output_shape p) (length (concat_last cs))) = length a \<and>
             a ! i = forward (squash_bijector p)
                       (forward (Affine shift (map exp log_scale_diag))
                          (sample draw (output_shape p) (length (concat_last cs)) ! i)) \<and>
             length (a ! i) = output_shape p \<and>
             a ! i ! j = (if squash p
                          then tanh (shift ! j + exp (log_scale_diag ! j) * draw i j)
                          else shift ! j + exp (log_scale_diag ! j) * draw i j)"
proof -
  define a where "a = actions_model p draw cs"
  define lat where "lat = sample draw (output_shape p) (length (concat_last cs)) ! i"
  define raw where "raw = forward (Affine shift (map exp log_scale_diag)) lat"
  have lat: "lat = map (draw i) [0..<output_shape p]"
    unfolding lat_def by (rule nth_sample [OF assms(2)])
  have 1: "actions p draw cs = Inr a" using assms(1) by (simp add: actions_def a_def)
  have 2: "length a = length (hd cs)"
    using length_concat_last [OF assms(1)] by (simp add: a_def)
  have 3: "length (sample draw (output_shape p) (length (concat_last cs))) = length a"
    by (simp add: a_def)
  have 4: "a ! i = forward (squash_bijector p) raw"
    unfolding a_def raw_def lat by (rule nth_actions_model [OF assms(2,3)])
  have lraw: "length raw = output_shape p"
    unfolding raw_def lat by (rule length_raw_row [OF assms(3)])
  have 5: "length (a ! i) = output_shape p"
    unfolding 4 using lraw by simp
  have nraw: "raw ! j = shift ! j + exp (log_scale_diag ! j) * draw i j"
    unfolding raw_def lat by (rule nth_raw_row [OF assms(3,4)])
  have jl: "j < length raw" using lraw assms(4) by simp
  have 6: "a ! i ! j = (if squash p
                          then tanh (shift ! j + exp (log_scale_diag ! j) * draw i j)
                          else shift ! j + exp (log_scale_diag ! j) * draw i j)"
    unfolding 4 nth_forward_squash_bijector [OF jl] nraw ..
  show ?thesis
    apply (rule exI [of _ a])
    using 1 2 3 4 5 6 unfolding raw_def lat_def
    apply (intro conjI)
    apply assumption+
    done
qed

theorem actions_affine_then_squash_witness:
  "conditions_ok (example_policy True (1 / 10)) [[[1, 2]]] \<and>
   shift_and_log_scale_diag (example_policy True (1 / 10)) (concat_last [[[1, 2]]] ! 0) = ([3 / 50], [3 / 50]) \<and>
   (\<exists>a. actions (example_policy True (1 / 10)) (\<lambda>i j. 1 / 2) [[[1, 2]]] = Inr a \<and>
        length a = 1 \<and> length (a ! 0) = 1 \<and> a ! 0 ! 0 = tanh (3 / 50 + exp (3 / 50) * (1 / 2)))"
proof -
  have h1: "conditions_ok (example_policy True (1 / 10)) [[[1, 2]]]"
    by (rule example_conditions_ok)
  have h2: "0 < length (concat_last [[[1, 2 :: real]]])" by simp
  have h3: "shift_and_log_scale_diag (example_policy True (1 / 10)) (concat_last [[[1, 2]]] ! 0) = ([3 / 50], [3 / 50])"
    by (simp add: ex_moderate)
  have h4: "0 < output_shape (example_policy True (1 / 10))"
    by (simp add: example_output_shape)
  from actions_affine_then_squash [OF h1 h2 h3 h4, of "\<lambda>i j. 1 / 2"] h1 h3
  show ?thesis
    by (simp add: example_output_shape example_squash) blast
qed


subsection \<open>Clipping of the log-scale\<close>

text \<open>
  Claim C4.  Whatever the weights and the condition row, every log-scale the conditioner
  returns lies in [-20, 2], because the clipping maps every real into that range; and the
  conditioner's clipped log-scale is the one both graphs exponentiate for their Affine
  bijector.
\<close>

theorem log_scale_diag_clipped:
  "(\<forall>l \<in> set (snd (shift_and_log_scale_diag p c)). - 20 \<le> l \<and> l \<le> 2) \<and>
   - 20 \<le> clip_by_value t (fst SCALE_DIAG_MIN_MAX) (snd SCALE_DIAG_MIN_MAX) \<and>
   clip_by_value t (fst SCALE_DIAG_MIN_MAX) (snd SCALE_DIAG_MIN_MAX) \<le> 2 \<and>
   raw_actions_model p draw cs =
     map2 (\<lambda>row l. forward (Affine (fst (shift_and_log_scale_diag p row))
                              (map exp (snd (shift_and_log_scale_diag p row)))) l)
       (concat_last cs) (sample draw (output_shape p) (length (concat_last cs))) \<and>
   log_pis_model p cs acts =
     map2 (\<lambda>row a. [transformed_log_prob
                       (Chain [squash_bijector p,
                               Affine (fst (shift_and_log_scale_diag p row))
                                 (map exp (snd (shift_and_log_scale_diag p row)))]) a])
       (concat_last cs) acts"
proof -
  have a: "\<forall>l \<in> set (snd (shift_and_log_scale_diag p c)). - 20 \<le> l \<and> l \<le> 2"
    using log_scale_diag_bounds by blast
  have b: "raw_actions_model p draw cs =
     map2 (\<lambda>row l. forward (Affine (fst (shift_and_log_scale_diag p row))
                              (map exp (snd (shift_and_log_scale_diag p row)))) l)
       (concat_last cs) (sample draw (output_shape p) (length (concat_last cs)))"
    by (simp add: raw_actions_model_def Let_def zip_map1 case_prod_unfold)
  have c: "log_pis_model p cs acts =
     map2 (\<lambda>row a. [transformed_log_prob
                       (Chain [squash_bijector p,
                               Affine (fst (shift_and_log_scale_diag p row))
                                 (map exp (snd (shift_and_log_scale_diag p row)))]) a])
       (concat_last cs) acts"
    by (simp add: log_pis_model_def Let_def zip_map1 case_prod_unfold)
  from a b c clip_bounds [of t] show ?thesis by blast
qed


theorem log_scale_diag_clipped_witness:
  "snd (shift_and_log_scale_diag (example_policy True 10) [1, 2]) = [2] \<and>
   (2::real) \<in> set (snd (shift_and_log_scale_diag (example_policy True 10) [1, 2])) \<and>
   - 20 \<le> (2::real) \<and> (2::real) \<le> 2 \<and>
   clip_by_value 600 (fst SCALE_DIAG_MIN_MAX) (snd SCALE_DIAG_MIN_MAX) = 2"
  using log_scale_diag_clipped [of "example_policy True 10" "[1, 2]" 600]
  by (simp add: ex_clipped clip_by_value_def SCALE_DIAG_MIN_MAX_def)



subsection \<open>The scale of the Affine bijector\<close>



subsection \<open>Shape and range of the actions\<close>

lemma length_actions_model_row:
  assumes "i < length (concat_last cs)"
  shows "length (actions_model p draw cs ! i) = output_shape p"
proof -
  obtain shift lsd where s: "shift_and_log_scale_diag p (concat_last cs ! i) = (shift, lsd)"
    by (cases "shift_and_log_scale_diag p (concat_last cs ! i)")
  show ?thesis
    unfolding nth_actions_model [OF assms s] length_forward_squash_bijector
    by (rule length_raw_row [OF s])
qed

lemma squashed_row_bounds:
  assumes "squash p" "v \<in> set (forward (squash_bijector p) x)"
  shows "- 1 < v \<and> v < 1"
  using assms by (auto simp: squash_bijector_def tanh_real_lt_1 tanh_real_gt_neg1)

lemma map_draw_const: "length x = A \<Longrightarrow> map (\<lambda>j. x ! j) [0..<A] = x"
  using map_nth [of x] by simp

lemma unsquashed_row_reaches:
  assumes ns: "\<not> squash p" and i: "i < length (concat_last cs)" and y: "length y = output_shape p"
  shows "actions_model p (\<lambda>i' j. the (inverse_bij
            (Affine (fst (shift_and_log_scale_diag p (concat_last cs ! i)))
               (map exp (snd (shift_and_log_scale_diag p (concat_last cs ! i))))) y) ! j) cs ! i = y"
proof -
  obtain shift lsd where s: "shift_and_log_scale_diag p (concat_last cs ! i) = (shift, lsd)"
    by (cases "shift_and_log_scale_diag p (concat_last cs ! i)")
  note len = sld_lengths [OF s]
  have nz: "0 \<notin> set (map exp lsd)" by (rule exp_scale_nonzero)
  obtain x where x: "inverse_bij (Affine shift (map exp lsd)) y = Some x" "length x = length y"
      "forward (Affine shift (map exp lsd)) x = y"
    using forward_inverse_Affine [OF nz, of shift y] len y by auto
  have m: "map (\<lambda>j. x ! j) [0..<output_shape p] = x"
    using x(2) y by (intro map_draw_const) simp
  have id: "squash_bijector p = Identity" using ns by (simp add: squash_bijector_def)
  show ?thesis
    unfolding s fst_conv snd_conv x(1) option.sel
    unfolding nth_actions_model [OF i s] m id x(3) by simp
qed

lemma actions_exact_shape_and_range:
  assumes "conditions_ok p cs"
  shows "(\<exists>a. actions p draw cs = Inr a \<and>
              length a = length (hd cs) \<and>
              (\<forall>row \<in> set a. length row = output_shape p) \<and>
              (squash p \<longrightarrow> (\<forall>row \<in> set a. \<forall>v \<in> set row. - 1 < v \<and> v < 1))) \<and>
         (\<not> squash p \<longrightarrow>
            (\<forall>i < length (hd cs). \<forall>y. length y = output_shape p \<longrightarrow>
               (\<exists>draw' a'. actions p draw' cs = Inr a' \<and> a' ! i = y)))"
proof -
  define a where "a = actions_model p draw cs"
  have la: "length a = length (concat_last cs)" by (simp add: a_def)
  have 1: "actions p draw cs = Inr a" using assms by (simp add: actions_def a_def)
  have 2: "length a = length (hd cs)" using la length_concat_last [OF assms] by simp
  have 3: "\<forall>row \<in> set a. length row = output_shape p"
  proof
    fix row assume "row \<in> set a"
    then obtain i where i: "i < length a" "row = a ! i" by (auto simp: in_set_conv_nth)
    then show "length row = output_shape p"
      using la length_actions_model_row [of i cs p draw] by (simp add: a_def)
  qed
  have 4: "squash p \<longrightarrow> (\<forall>row \<in> set a. \<forall>v \<in> set row. - 1 < v \<and> v < 1)"
  proof (intro impI ballI)
    fix row v assume sq: "squash p" and "row \<in> set a" and v: "v \<in> set row"
    then have "row \<in> set (map (forward (squash_bijector p)) (raw_actions_model p draw cs))"
      by (simp add: a_def actions_model_def)
    then obtain x where "row = forward (squash_bijector p) x" by auto
    with v squashed_row_bounds [OF sq] show "- 1 < v \<and> v < 1" by blast
  qed
  have 5: "\<not> squash p \<longrightarrow>
                (\<forall>i < length (hd cs). \<forall>y. length y = output_shape p \<longrightarrow>
                   (\<exists>draw' a'. actions p draw' cs = Inr a' \<and> a' ! i = y))"
  proof (intro impI allI)
    fix i y assume ns: "\<not> squash p" and i: "i < length (hd cs)"
      and y: "length (y :: real list) = output_shape p"
    from i have i': "i < length (concat_last cs)" using length_concat_last [OF assms] by simp
    let ?d = "\<lambda>(i'::nat) j. the (inverse_bij
            (Affine (fst (shift_and_log_scale_diag p (concat_last cs ! i)))
               (map exp (snd (shift_and_log_scale_diag p (concat_last cs ! i))))) y) ! j"
    have "actions p ?d cs = Inr (actions_model p ?d cs)" using assms by (simp add: actions_def)
    moreover have "actions_model p ?d cs ! i = y" by (rule unsquashed_row_reaches [OF ns i' y])
    ultimately show "\<exists>draw' a'. actions p draw' cs = Inr a' \<and> a' ! i = y" by blast
  qed
  have "\<exists>a. actions p draw cs = Inr a \<and>
              length a = length (hd cs) \<and>
              (\<forall>row \<in> set a. length row = output_shape p) \<and>
              (squash p \<longrightarrow> (\<forall>row \<in> set a. \<forall>v \<in> set row. - 1 < v \<and> v < 1))"
    apply (rule exI [of _ a])
    using 1 2 3 4
    apply (intro conjI)
    apply assumption+
    done
  with 5 show ?thesis by (rule conjI [rotated])
qed

subsection \<open>Squashing disabled\<close>

lemma map_forward_Identity: "map (forward Identity) xs = xs"
  by (induction xs) simp_all

text \<open>
  Claim C7.  With \<open>squash = False\<close> the squash bijector is the Identity bijector, whose
  forward map returns its argument and whose log-det-Jacobian is zero; \<open>actions\<close> then
  returns the raw actions, entry \<open>j\<close> of row \<open>i\<close> being
  \<open>shift_j + exp (log_scale_diag_j) * latent_j\<close>.
\<close>

theorem identity_squash_is_raw:
  assumes "\<not> squash p" and "conditions_ok p cs"
  shows "squash_bijector p = Identity \<and>
         forward Identity x = x \<and>
         forward_log_det_jacobian Identity x = 0 \<and>
         actions p draw cs = Inr (raw_actions_model p draw cs) \<and>
         length (raw_actions_model p draw cs) = length (hd cs) \<and>
         (\<forall>i < length (hd cs). \<forall>j < output_shape p.
            raw_actions_model p draw cs ! i ! j =
              fst (shift_and_log_scale_diag p (concat_last cs ! i)) ! j +
              exp (snd (shift_and_log_scale_diag p (concat_last cs ! i)) ! j) * draw i j)"
proof -
  have id: "squash_bijector p = Identity" using assms(1) by (simp add: squash_bijector_def)
  have a: "actions p draw cs = Inr (raw_actions_model p draw cs)"
    using assms(2) by (simp add: actions_def actions_model_def id map_forward_Identity)
  have l: "length (raw_actions_model p draw cs) = length (hd cs)"
    using length_concat_last [OF assms(2)] by simp
  have e: "\<forall>i < length (hd cs). \<forall>j < output_shape p.
            raw_actions_model p draw cs ! i ! j =
              fst (shift_and_log_scale_diag p (concat_last cs ! i)) ! j +
              exp (snd (shift_and_log_scale_diag p (concat_last cs ! i)) ! j) * draw i j"
  proof (intro allI impI)
    fix i j assume i: "i < length (hd cs)" and j: "j < output_shape p"
    from i have i': "i < length (concat_last cs)" using length_concat_last [OF assms(2)] by simp
    have s: "shift_and_log_scale_diag p (concat_last cs ! i) =
          (fst (shift_and_log_scale_diag p (concat_last cs ! i)),
           snd (shift_and_log_scale_diag p (concat_last cs ! i)))" by simp
    show "raw_actions_model p draw cs ! i ! j =
              fst (shift_and_log_scale_diag p (concat_last cs ! i)) ! j +
              exp (snd (shift_and_log_scale_diag p (concat_last cs ! i)) ! j) * draw i j"
      unfolding nth_raw_actions_model [OF i' s] by (rule nth_raw_row [OF s j])
  qed
  from id a l e show ?thesis by simp
qed

theorem identity_squash_is_raw_witness:
  "\<not> squash (example_policy False (1 / 10)) \<and> conditions_ok (example_policy False (1 / 10)) [[[1, 2]]] \<and>
   actions (example_policy False (1 / 10)) (\<lambda>i j. 1 / 2) [[[1, 2]]] =
     Inr (raw_actions_model (example_policy False (1 / 10)) (\<lambda>i j. 1 / 2) [[[1, 2]]]) \<and>
   raw_actions_model (example_policy False (1 / 10)) (\<lambda>i j. 1 / 2) [[[1, 2]]] ! 0 ! 0 = 3 / 50 + exp (3 / 50) * (1 / 2)"
proof -
  have ns: "\<not> squash (example_policy False (1 / 10))" by (simp add: example_squash)
  from identity_squash_is_raw [OF ns example_conditions_ok, of "[]" "\<lambda>i j. 1 / 2"]
  show ?thesis using ns example_conditions_ok [of False "1 / 10"]
    by (simp add: example_output_shape ex_moderate)
qed

subsection \<open>The scoring path\<close>

lemma length_log_pis_model:
  "length (log_pis_model p cs acts) = min (length (concat_last cs)) (length acts)"
  by (simp add: log_pis_model_def Let_def)

lemma nth_log_pis_model:
  assumes "i < length (concat_last cs)" "i < length acts"
    and "shift_and_log_scale_diag p (concat_last cs ! i) = (shift, log_scale_diag)"
  shows "log_pis_model p cs acts ! i =
           [transformed_log_prob
              (Chain [squash_bijector p, Affine shift (map exp log_scale_diag)]) (acts ! i)]"
  using assms by (simp add: log_pis_model_def Let_def)

lemma inverse_forward_squash_bijector:
  "inverse_bij (squash_bijector p) (forward (squash_bijector p) x) = Some x"
proof (cases "squash p")
  case True
  then have "squash_bijector p = SquashBijector" by (simp add: squash_bijector_def)
  then show ?thesis by (simp only: inverse_forward_Squash)
next
  case False
  then show ?thesis by (simp add: squash_bijector_def)
qed

lemma transformed_log_prob_Squash_chain:
  assumes len: "length shift = length y" "length lsd = length y"
  shows "transformed_log_prob (Chain [SquashBijector, Affine shift (map exp lsd)]) y =
           (case inverse_bij (Chain [SquashBijector, Affine shift (map exp lsd)]) y of
              None \<Rightarrow> None
            | Some x \<Rightarrow>
                Some (base_distribution_log_prob x -
                      forward_log_det_jacobian (Chain [SquashBijector, Affine shift (map exp lsd)]) x))"
proof (cases "list_all (\<lambda>v. - 1 < v \<and> v < 1) y")
  case False
  then have "inverse_bij (Chain [SquashBijector, Affine shift (map exp lsd)]) y = None"
    by (simp add: inverse_Chain2)
  then show ?thesis by (simp add: transformed_log_prob_def)
next
  case True
  let ?aff = "Affine shift (map exp lsd)"
  let ?u = "map artanh y"
  have nz: "0 \<notin> set (map exp lsd)" by (rule exp_scale_nonzero)
  have iu: "inverse_bij SquashBijector y = Some ?u" using True by simp
  obtain x where x: "inverse_bij ?aff ?u = Some x" "forward ?aff x = ?u"
    using forward_inverse_Affine [OF nz, of shift ?u] len by auto
  have inv: "inverse_bij (Chain [SquashBijector, ?aff]) y = Some x"
    by (simp only: inverse_Chain2 iu x(1) option.case)
  have j1: "inverse_log_det_jacobian SquashBijector y =
              Some (- forward_log_det_jacobian SquashBijector ?u)"
    using True squash_ildj_sum [OF True] by simp
  have j2: "inverse_log_det_jacobian ?aff ?u = Some (- sum_list lsd)"
    using nz by (simp only: inverse_log_det_jacobian.simps sum_ln_exp if_False)
  have ildj: "inverse_log_det_jacobian (Chain [SquashBijector, ?aff]) y =
                Some (- forward_log_det_jacobian SquashBijector ?u + - sum_list lsd)"
    by (simp only: ildj_Chain2 j1 j2 iu x(1) option.case)
  have f1: "forward_log_det_jacobian ?aff x = sum_list lsd"
    by (simp only: forward_log_det_jacobian.simps sum_ln_exp)
  have fldj: "forward_log_det_jacobian (Chain [SquashBijector, ?aff]) x =
                sum_list lsd + forward_log_det_jacobian SquashBijector ?u"
    by (simp only: fldj_Chain2 f1 x(2))
  show ?thesis
    unfolding transformed_log_prob_def inv ildj fldj option.case by simp
qed

lemma transformed_log_prob_Identity_chain:
  "transformed_log_prob (Chain [Identity, Affine shift (map exp lsd)]) y =
           (case inverse_bij (Chain [Identity, Affine shift (map exp lsd)]) y of
              None \<Rightarrow> None
            | Some x \<Rightarrow>
                Some (base_distribution_log_prob x -
                      forward_log_det_jacobian (Chain [Identity, Affine shift (map exp lsd)]) x))"
proof -
  let ?aff = "Affine shift (map exp lsd)"
  have nz: "0 \<notin> set (map exp lsd)" by (rule exp_scale_nonzero)
  obtain x where x: "inverse_bij ?aff y = Some x" using nz by simp
  have inv: "inverse_bij (Chain [Identity, ?aff]) y = Some x"
    by (simp only: inverse_Chain2 inverse_bij.simps(3) x option.case)
  have j2: "inverse_log_det_jacobian ?aff y = Some (- sum_list lsd)"
    using nz by (simp only: inverse_log_det_jacobian.simps sum_ln_exp if_False)
  have ildj: "inverse_log_det_jacobian (Chain [Identity, ?aff]) y = Some (0 + - sum_list lsd)"
    by (simp only: ildj_Chain2 inverse_log_det_jacobian.simps(3) inverse_bij.simps(3) j2 x option.case)
  have f1: "forward_log_det_jacobian ?aff x = sum_list lsd"
    by (simp only: forward_log_det_jacobian.simps sum_ln_exp)
  have fldj: "forward_log_det_jacobian (Chain [Identity, ?aff]) x = sum_list lsd + 0"
    by (simp only: fldj_Chain2 f1 forward_log_det_jacobian.simps(3))
  show ?thesis
    unfolding transformed_log_prob_def inv ildj fldj option.case by simp
qed

lemma transformed_log_prob_chain:
  assumes "length shift = length y" "length lsd = length y"
  shows "transformed_log_prob (Chain [squash_bijector p, Affine shift (map exp lsd)]) y =
           (case inverse_bij (Chain [squash_bijector p, Affine shift (map exp lsd)]) y of
              None \<Rightarrow> None
            | Some x \<Rightarrow>
                Some (base_distribution_log_prob x -
                      forward_log_det_jacobian
                        (Chain [squash_bijector p, Affine shift (map exp lsd)]) x))"
proof (cases "squash p")
  case True
  then have "squash_bijector p = SquashBijector" by (simp add: squash_bijector_def)
  then show ?thesis by (simp only: transformed_log_prob_Squash_chain [OF assms])
next
  case False
  then have "squash_bijector p = Identity" by (simp add: squash_bijector_def)
  then show ?thesis by (simp only: transformed_log_prob_Identity_chain)
qed

lemma sum_list_normal_terms:
  fixes c :: real
  shows "(\<Sum>z\<leftarrow>x. - (z\<^sup>2) / 2 - c / 2) = - (\<Sum>z\<leftarrow>x. z\<^sup>2) / 2 - real (length x) * c / 2"
proof (induction x)
  case Nil
  then show ?case by simp
next
  case (Cons a x)
  have "(\<Sum>z\<leftarrow>a # x. - (z\<^sup>2) / 2 - c / 2) = (- (a\<^sup>2) / 2 - c / 2) + (\<Sum>z\<leftarrow>x. - (z\<^sup>2) / 2 - c / 2)"
    by simp
  also have "\<dots> = (- (a\<^sup>2) / 2 - c / 2) + (- (\<Sum>z\<leftarrow>x. z\<^sup>2) / 2 - real (length x) * c / 2)"
    by (simp only: Cons.IH)
  also have "\<dots> = - (\<Sum>z\<leftarrow>a # x. z\<^sup>2) / 2 - real (length (a # x)) * c / 2"
    by (simp add: field_simps)
  finally show ?case .
qed

lemma base_distribution_log_prob_alt:
  "base_distribution_log_prob x = - (\<Sum>z\<leftarrow>x. z\<^sup>2) / 2 - real (length x) * ln (2 * pi) / 2"
  unfolding base_distribution_log_prob_def by (rule sum_list_normal_terms)

lemma log_pis_model_rows:
  assumes "row \<in> set (log_pis_model p cs acts)"
  shows "length row = 1"
  using assms by (auto simp: log_pis_model_def Let_def set_zip)

lemma log_pis_Inr:
  assumes "conditions_ok p cs" "actions_ok p cs acts"
  shows "log_pis p cs acts = Inr (log_pis_model p cs acts)"
    and "length (log_pis_model p cs acts) = length (hd cs)"
    and "length acts = length (hd cs)"
proof -
  show "log_pis p cs acts = Inr (log_pis_model p cs acts)"
    using assms by (simp add: log_pis_def)
  show l: "length acts = length (hd cs)" using assms(2) by (simp add: actions_ok_def)
  show "length (log_pis_model p cs acts) = length (hd cs)"
    using l length_concat_last [OF assms(1)] by (simp add: length_log_pis_model)
qed

lemma actions_ok_row:
  assumes "actions_ok p cs acts" "i < length (hd cs)"
  shows "length (acts ! i) = output_shape p"
  using assms by (simp add: actions_ok_def list_all_length)

text \<open>
  Claim C5.  On well-shaped conditions and candidate actions \<open>log_pis\<close> returns a column:
  one row of length one per batch element.  Row \<open>i\<close> holds the change-of-variables
  log-probability: the standard normal log-density at the inverse image of the action
  under \<open>Chain [squash, Affine]\<close> (squash inverted first, then the affine map), minus the
  chain's forward log-det-Jacobian at that inverse image, which is the sum of the affine
  and the squash terms.  Where the action has no inverse image (an entry outside (-1, 1)
  with squashing on) the entry is not a real number.
\<close>

theorem log_pis_change_of_variables:
  assumes "conditions_ok p cs" and "actions_ok p cs acts"
    and "i < length (hd cs)"
    and "shift_and_log_scale_diag p (concat_last cs ! i) = (shift, log_scale_diag)"
  shows "(\<exists>lp. log_pis p cs acts = Inr lp \<and>
              length lp = length (hd cs) \<and>
              (\<forall>row \<in> set lp. length row = 1) \<and>
              lp ! i =
                [case inverse_bij
                        (Chain [squash_bijector p, Affine shift (map exp log_scale_diag)])
                        (acts ! i) of
                   None \<Rightarrow> None
                 | Some x \<Rightarrow>
                     Some (base_distribution_log_prob x -
                           forward_log_det_jacobian
                             (Chain [squash_bijector p, Affine shift (map exp log_scale_diag)])
                             x)]) \<and>
         (\<forall>y. inverse_bij (Chain [squash_bijector p, Affine shift (map exp log_scale_diag)]) y =
              (case inverse_bij (squash_bijector p) y of
                 None \<Rightarrow> None
               | Some u \<Rightarrow> inverse_bij (Affine shift (map exp log_scale_diag)) u)) \<and>
         (\<forall>x. forward_log_det_jacobian
                (Chain [squash_bijector p, Affine shift (map exp log_scale_diag)]) x =
              sum_list log_scale_diag +
              forward_log_det_jacobian (squash_bijector p)
                (forward (Affine shift (map exp log_scale_diag)) x)) \<and>
         (\<forall>x. base_distribution_log_prob x =
              - (\<Sum>z\<leftarrow>x. z\<^sup>2) / 2 - real (length x) * ln (2 * pi) / 2)"
proof -
  let ?chain = "Chain [squash_bijector p, Affine shift (map exp log_scale_diag)]"
  define lp where "lp = log_pis_model p cs acts"
  note ok = log_pis_Inr [OF assms(1,2)]
  have i': "i < length (concat_last cs)" using assms(3) length_concat_last [OF assms(1)] by simp
  have i'': "i < length acts" using assms(3) ok(3) by simp
  have len: "length shift = length (acts ! i)" "length log_scale_diag = length (acts ! i)"
    using sld_lengths [OF assms(4)] actions_ok_row [OF assms(2,3)] by simp_all
  have 1: "log_pis p cs acts = Inr lp" unfolding lp_def by (rule ok(1))
  have 2: "length lp = length (hd cs)" unfolding lp_def by (rule ok(2))
  have 3: "\<forall>row \<in> set lp. length row = 1"
    unfolding lp_def using log_pis_model_rows by blast
  have 4: "lp ! i =
                [case inverse_bij ?chain (acts ! i) of
                   None \<Rightarrow> None
                 | Some x \<Rightarrow>
                     Some (base_distribution_log_prob x - forward_log_det_jacobian ?chain x)]"
    unfolding lp_def nth_log_pis_model [OF i' i'' assms(4)]
    by (simp only: transformed_log_prob_chain [OF len])
  have a: "\<exists>lp. log_pis p cs acts = Inr lp \<and>
              length lp = length (hd cs) \<and>
              (\<forall>row \<in> set lp. length row = 1) \<and>
              lp ! i =
                [case inverse_bij ?chain (acts ! i) of
                   None \<Rightarrow> None
                 | Some x \<Rightarrow>
                     Some (base_distribution_log_prob x - forward_log_det_jacobian ?chain x)]"
    apply (rule exI [of _ lp])
    using 1 2 3 4
    apply (intro conjI)
    apply assumption+
    done
  have b: "\<forall>y. inverse_bij ?chain y =
              (case inverse_bij (squash_bijector p) y of
                 None \<Rightarrow> None
               | Some u \<Rightarrow> inverse_bij (Affine shift (map exp log_scale_diag)) u)"
    by (simp only: inverse_Chain2) simp
  have c: "\<forall>x. forward_log_det_jacobian ?chain x =
              sum_list log_scale_diag +
              forward_log_det_jacobian (squash_bijector p)
                (forward (Affine shift (map exp log_scale_diag)) x)"
    by (simp only: fldj_Chain2 forward_log_det_jacobian.simps(1) sum_ln_exp) simp
  have d: "\<forall>x. base_distribution_log_prob x =
              - (\<Sum>z\<leftarrow>x. z\<^sup>2) / 2 - real (length x) * ln (2 * pi) / 2"
    using base_distribution_log_prob_alt by blast
  from a b c d show ?thesis by (intro conjI)
qed

lemma example_actions_ok: "actions_ok (example_policy sq w) [[[1, 2]]] [[v]]"
  by (simp add: actions_ok_def example_output_shape)

theorem log_pis_change_of_variables_witness:
  "conditions_ok (example_policy True (1 / 10)) [[[1, 2]]] \<and>
   actions_ok (example_policy True (1 / 10)) [[[1, 2]]] [[1 / 2]] \<and>
   shift_and_log_scale_diag (example_policy True (1 / 10)) (concat_last [[[1, 2]]] ! 0) = ([3 / 50], [3 / 50]) \<and>
   (\<exists>lp. log_pis (example_policy True (1 / 10)) [[[1, 2]]] [[1 / 2]] = Inr lp \<and> length lp = 1 \<and>
         lp ! 0 =
           [Some (base_distribution_log_prob [(artanh (1 / 2) - 3 / 50) / exp (3 / 50)] -
                  (3 / 50 + SquashBijector_forward_log_det_jacobian (artanh (1 / 2))))]) \<and>
   log_pis (example_policy True (1 / 10)) [[[1, 2]]] [[2]] = Inr [[None]]"
proof -
  have h1: "conditions_ok (example_policy True (1 / 10)) [[[1, 2]]]" by (rule example_conditions_ok)
  have h2: "actions_ok (example_policy True (1 / 10)) [[[1, 2]]] [[1 / 2]]" by (rule example_actions_ok)
  have h3: "0 < length (hd [[[1, 2 :: real]]])" by simp
  have h4: "shift_and_log_scale_diag (example_policy True (1 / 10)) (concat_last [[[1, 2]]] ! 0) = ([3 / 50], [3 / 50])"
    by (simp add: ex_moderate)
  have sq: "squash_bijector (example_policy True (1 / 10)) = SquashBijector"
    by (simp add: squash_bijector_def example_squash)
  have t: "tanh (artanh (1 / 2 :: real)) = 1 / 2" by (rule tanh_artanh) simp_all
  have n: "log_pis (example_policy True (1 / 10)) [[[1, 2]]] [[2]] = Inr [[None]]"
    using example_conditions_ok [of True "1 / 10"] example_actions_ok [of True "1 / 10" 2]
    by (simp add: log_pis_def log_pis_model_def Let_def ex_moderate sq transformed_log_prob_def)
  from log_pis_change_of_variables [OF h1 h2 h3 h4, THEN conjunct1]
  have "\<exists>lp. log_pis (example_policy True (1 / 10)) [[[1, 2]]] [[1 / 2]] = Inr lp \<and> length lp = 1 \<and>
         lp ! 0 =
           [Some (base_distribution_log_prob [(artanh (1 / 2) - 3 / 50) / exp (3 / 50)] -
                  (3 / 50 + SquashBijector_forward_log_det_jacobian (artanh (1 / 2))))]"
    by (simp add: sq t) blast
  with h1 h2 h4 n show ?thesis by simp
qed

subsection \<open>Scoring sampled actions\<close>

lemma actions_model_ok:
  assumes "conditions_ok p cs"
  shows "actions_ok p cs (actions_model p draw cs)"
proof -
  have "length (actions_model p draw cs) = length (hd cs)"
    using length_concat_last [OF assms] by simp
  moreover have "list_all (\<lambda>row. length row = output_shape p) (actions_model p draw cs)"
    unfolding list_all_length using length_actions_model_row [of _ cs p draw] by simp
  ultimately show ?thesis by (simp add: actions_ok_def)
qed

lemma inverse_chain_sampled:
  assumes i: "i < length (concat_last cs)"
    and s: "shift_and_log_scale_diag p (concat_last cs ! i) = (shift, lsd)"
  shows "inverse_bij (Chain [squash_bijector p, Affine shift (map exp lsd)])
           (actions_model p draw cs ! i) = Some (map (draw i) [0..<output_shape p])"
proof -
  have nz: "0 \<notin> set (map exp lsd)" by (rule exp_scale_nonzero)
  note len = sld_lengths [OF s]
  have "inverse_bij (Affine shift (map exp lsd))
          (forward (Affine shift (map exp lsd)) (map (draw i) [0..<output_shape p]))
        = Some (map (draw i) [0..<output_shape p])"
    using len by (intro inverse_forward_Affine [OF nz]) simp_all
  then show ?thesis
    unfolding nth_actions_model [OF i s] inverse_Chain2 inverse_forward_squash_bijector
    by simp
qed

subsection \<open>The unused regularization coefficient\<close>

lemma hidden_layers_regularization_coeff:
  "hidden_layers (p\<lparr>regularization_coeff := r\<rparr>) k units out = hidden_layers p k units out"
  by (induction units arbitrary: k out) simp_all

lemma shift_and_log_scale_diag_regularization_coeff:
  "shift_and_log_scale_diag (p\<lparr>regularization_coeff := r\<rparr>) = shift_and_log_scale_diag p"
  by (rule ext) (simp add: shift_and_log_scale_diag_def hidden_layers_regularization_coeff)

lemma actions_regularization_coeff:
  "actions (p\<lparr>regularization_coeff := r\<rparr>) draw cs = actions p draw cs"
  by (simp add: actions_def actions_model_def raw_actions_model_def squash_bijector_def
      conditions_ok_def shift_and_log_scale_diag_regularization_coeff)

lemma log_pis_regularization_coeff:
  "log_pis (p\<lparr>regularization_coeff := r\<rparr>) cs a = log_pis p cs a"
  by (simp add: log_pis_def log_pis_model_def squash_bijector_def conditions_ok_def actions_ok_def
      shift_and_log_scale_diag_regularization_coeff)

lemma trainable_variables_regularization_coeff:
  "trainable_variables (p\<lparr>regularization_coeff := r\<rparr>) = trainable_variables p"
  by (simp add: trainable_variables_def layer_units_def layer_inputs_def)

lemma init_regularization_coeff:
  "GaussianPolicy_init ins A hs sq r2 act oact nm K B =
     (GaussianPolicy_init ins A hs sq r1 act oact nm K B)\<lparr>regularization_coeff := r2\<rparr>"
  by (simp add: GaussianPolicy_init_def)

text \<open>
  Claim C8.  Two policies built from the same arguments and the same weight values, but
  with different values of \<open>regularization_coeff\<close>, return the same result from
  \<open>actions\<close>, \<open>log_pis\<close>, \<open>actions_np\<close>, \<open>log_pis_np\<close>, \<open>trainable_variables\<close> and
  \<open>get_diagnostics\<close>, for the same conditions, candidate actions and latent draw; the
  coefficient is only stored.
\<close>

theorem regularization_coeff_inert:
  "actions (GaussianPolicy_init ins A hs sq r1 act oact nm K B) draw cs =
     actions (GaussianPolicy_init ins A hs sq r2 act oact nm K B) draw cs \<and>
   log_pis (GaussianPolicy_init ins A hs sq r1 act oact nm K B) cs a =
     log_pis (GaussianPolicy_init ins A hs sq r2 act oact nm K B) cs a \<and>
   actions_np (GaussianPolicy_init ins A hs sq r1 act oact nm K B) draw cs =
     actions_np (GaussianPolicy_init ins A hs sq r2 act oact nm K B) draw cs \<and>
   log_pis_np (GaussianPolicy_init ins A hs sq r1 act oact nm K B) cs a =
     log_pis_np (GaussianPolicy_init ins A hs sq r2 act oact nm K B) cs a \<and>
   trainable_variables (GaussianPolicy_init ins A hs sq r1 act oact nm K B) =
     trainable_variables (GaussianPolicy_init ins A hs sq r2 act oact nm K B) \<and>
   get_diagnostics (GaussianPolicy_init ins A hs sq r1 act oact nm K B) iteration b =
     get_diagnostics (GaussianPolicy_init ins A hs sq r2 act oact nm K B) iteration b \<and>
   regularization_coeff (GaussianPolicy_init ins A hs sq r1 act oact nm K B) = r1"
proof -
  define p where "p = GaussianPolicy_init ins A hs sq r1 act oact nm K B"
  have p2: "GaussianPolicy_init ins A hs sq r2 act oact nm K B = p\<lparr>regularization_coeff := r2\<rparr>"
    unfolding p_def by (rule init_regularization_coeff)
  have r: "regularization_coeff p = r1" by (simp add: p_def GaussianPolicy_init_def)
  have "actions p draw cs = actions (p\<lparr>regularization_coeff := r2\<rparr>) draw cs"
    and "log_pis p cs a = log_pis (p\<lparr>regularization_coeff := r2\<rparr>) cs a"
    and "actions_np p draw cs = actions_np (p\<lparr>regularization_coeff := r2\<rparr>) draw cs"
    and "log_pis_np p cs a = log_pis_np (p\<lparr>regularization_coeff := r2\<rparr>) cs a"
    and "trainable_variables p = trainable_variables (p\<lparr>regularization_coeff := r2\<rparr>)"
    and "get_diagnostics p iteration b = get_diagnostics (p\<lparr>regularization_coeff := r2\<rparr>) iteration b"
    by (simp_all only: actions_regularization_coeff log_pis_regularization_coeff
        trainable_variables_regularization_coeff actions_np_def log_pis_np_def get_diagnostics_def)
  with r show ?thesis unfolding p2 p_def [symmetric] by (intro conjI)
qed

subsection \<open>Determinism of the sampling path\<close>


subsection \<open>Rounding of the squash\<close>

lemma floor_log2_top_binade:
  fixes t :: real
  assumes "1 / 2 \<le> t" "t < 1"
  shows "\<lfloor>log 2 t\<rfloor> = - 1"
proof -
  have "(2::real) powr (of_int (- 1)) \<le> t \<and> t < 2 powr (of_int (- 1) + 1)"
    using assms by (simp add: powr_minus)
  then show ?thesis using assms by (subst floor_log_eq_powr_iff) simp_all
qed

lemma float32_round_near_one:
  fixes t :: real
  assumes "1 - 1 / 2 ^ 25 \<le> t" "t < 1"
  shows "float32_round t = 1"
proof -
  have t: "1 / 2 \<le> t" "t \<noteq> 0" "\<bar>t\<bar> = t" using assms by simp_all
  have fl: "\<lfloor>log 2 \<bar>t\<bar>\<rfloor> = - 1" unfolding t(3) by (rule floor_log2_top_binade [OF t(1) assms(2)])
  have ulp: "(2::real) powr (of_int (- 1) - 23) = 1 / 2 ^ 24"
  proof -
    have "(2::real) powr (of_int (- 1) - 23) = 2 powr (- 24)" by simp
    also have "\<dots> = inverse (2 powr 24)" by (rule powr_minus)
    also have "\<dots> = inverse (2 ^ 24)" by simp
    finally show ?thesis by (simp add: inverse_eq_divide)
  qed
  have "round (t * 2 ^ 24) = 2 ^ 24"
  proof (rule round_unique)
    show "t * 2 ^ 24 - 1 / 2 < of_int (2 ^ 24)" using assms(2) by simp
    show "of_int (2 ^ 24) \<le> t * 2 ^ 24 + 1 / 2" using assms(1) by (simp add: field_simps)
  qed
  then show ?thesis
    unfolding float32_round_def Let_def fl ulp using t(2) by simp
qed

lemma exp_26_ge: "(2::real) ^ 26 \<le> exp 26"
proof -
  have "(2::real) \<le> exp 1" using exp_ge_add_one_self [of 1] by simp
  then have "(2::real) ^ 26 \<le> exp 1 ^ 26" by (intro power_mono) simp_all
  also have "exp (1::real) ^ 26 = exp (real 26 * 1)" by (rule exp_of_nat_mult [symmetric])
  finally show ?thesis by simp
qed

lemma tanh_near_one:
  fixes x :: real
  assumes "13 \<le> x"
  shows "1 - 1 / 2 ^ 25 \<le> tanh x"
proof -
  define e where "e = exp (- 2 * x)"
  have epos: "0 < e" by (simp add: e_def)
  have "e \<le> exp (- 26)" unfolding e_def using assms by simp
  also have "exp (- 26 :: real) = 1 / exp 26" by (simp add: exp_minus inverse_eq_divide)
  also have "\<dots> \<le> 1 / 2 ^ 26" using exp_26_ge by (intro divide_left_mono) simp_all
  finally have ele: "e \<le> 1 / 2 ^ 26" .
  have "1 - tanh x = 1 - (1 - e) / (1 + e)" by (simp only: tanh_real_altdef e_def)
  also have "\<dots> = 2 * e / (1 + e)" using epos by (simp add: field_simps)
  also have "\<dots> \<le> 2 * e / 1" using epos by (intro divide_left_mono) simp_all
  also have "\<dots> \<le> 1 / 2 ^ 25" using ele by simp
  finally show ?thesis by simp
qed

lemma tanh_float32_saturates:
  assumes "13 \<le> x"
  shows "tanh_float32 x = 1"
  unfolding tanh_float32_def
  by (rule float32_round_near_one [OF tanh_near_one [OF assms] tanh_real_lt_1])

lemma float32_round_bounded:
  fixes t :: real
  assumes "\<bar>t\<bar> < 1"
  shows "\<bar>float32_round t\<bar> \<le> 1"
proof (cases "t = 0")
  case True
  then show ?thesis by (simp add: float32_round_def)
next
  case False
  define e where "e = \<lfloor>log 2 \<bar>t\<bar>\<rfloor>"
  define ulp :: real where "ulp = 2 powr (of_int e - 23)"
  have tpos: "0 < \<bar>t\<bar>" using False by simp
  have b: "2 powr (of_int e) \<le> \<bar>t\<bar> \<and> \<bar>t\<bar> < 2 powr (of_int e + 1)"
    using floor_log_eq_powr_iff [of "\<bar>t\<bar>" 2 e] tpos by (simp add: e_def)
  have "2 powr (of_int e) < (1::real)" using b assms by linarith
  then have "2 powr (of_int e) < (2::real) powr 0" by simp
  then have "real_of_int e < 0" using powr_less_cancel_iff [of 2 "real_of_int e" 0] by simp
  then have e: "e + 1 \<le> 0" by linarith
  have top: "(2::real) powr (of_int e + 1) \<le> 1"
  proof -
    have "real_of_int e + 1 \<le> 0" using e by linarith
    then have "(2::real) powr (of_int e + 1) \<le> 2 powr 0" by (intro powr_mono) simp_all
    then show ?thesis by simp
  qed
  have upos: "0 < ulp" by (simp add: ulp_def)
  have split: "(2::real) powr (of_int e + 1) = 2 ^ 24 * ulp"
  proof -
    have "real_of_int e + 1 = 24 + (real_of_int e - 23)" by simp
    then have "(2::real) powr (of_int e + 1) = 2 powr (24 + (of_int e - 23))" by (rule arg_cong)
    also have "\<dots> = 2 powr 24 * 2 powr (of_int e - 23)" by (rule powr_add)
    finally show ?thesis by (simp add: ulp_def)
  qed
  have "\<bar>t / ulp\<bar> = \<bar>t\<bar> / ulp" using upos by simp
  also have "\<dots> < 2 ^ 24 * ulp / ulp"
    using b upos unfolding split by (intro divide_strict_right_mono) simp_all
  finally have y: "\<bar>t / ulp\<bar> < 2 ^ 24" using upos by simp
  have "round (t / ulp) \<le> round (2 ^ 24 :: real)" using y by (intro round_mono) linarith
  moreover have "round (- (2 ^ 24) :: real) \<le> round (t / ulp)" using y by (intro round_mono) linarith
  moreover have "round (2 ^ 24 :: real) = 2 ^ 24" "round (- (2 ^ 24) :: real) = - (2 ^ 24)"
    by simp_all
  ultimately have r: "\<bar>real_of_int (round (t / ulp))\<bar> \<le> 2 ^ 24" by simp
  have "\<bar>float32_round t\<bar> = \<bar>real_of_int (round (t / ulp))\<bar> * ulp"
    using False upos by (simp add: float32_round_def Let_def e_def ulp_def abs_mult)
  also have "\<dots> \<le> 2 ^ 24 * ulp" using r upos by (intro mult_right_mono) simp_all
  also have "\<dots> \<le> 1" using top unfolding split .
  finally show ?thesis .
qed

lemma tanh_float32_bounds: "- 1 \<le> tanh_float32 x \<and> tanh_float32 x \<le> 1"
proof -
  have "\<bar>tanh x\<bar> < 1" using tanh_real_lt_1 [of x] tanh_real_gt_neg1 [of x] by simp
  from float32_round_bounded [OF this] show ?thesis by (simp add: tanh_float32_def abs_le_iff)
qed

subsection \<open>Shape and range with the rounded squash\<close>

lemma ex_clipped_raw:
  "raw_actions_model (example_policy sq 10) half_draw [[[1, 2]]] = [[600 + exp 2 * (1 / 2)]]"
  by (simp add: raw_actions_model_def Let_def ex_clipped sample_def example_output_shape
      half_draw_def)

lemma ex_clipped_saturates:
  "actions_float32 (example_policy True 10) half_draw [[[1, 2]]] = Inr [[1]]"
proof -
  have "(13::real) \<le> 600 + exp 2 * (1 / 2)"
    using exp_ge_zero [of "2::real"] by simp
  then have "tanh_float32 (600 + exp 2 * (1 / 2)) = 1" by (rule tanh_float32_saturates)
  then show ?thesis
    using example_conditions_ok [of True 10]
    by (simp add: actions_float32_def actions_model_float32_def ex_clipped_raw
        squash_bijector_def example_squash)
qed

lemma length_forward_float32_squash_bijector [simp]:
  "length (forward_float32 (squash_bijector p) x) = length x"
  by (simp add: squash_bijector_def)

lemma length_actions_model_float32 [simp]:
  "length (actions_model_float32 p draw cs) = length (concat_last cs)"
  by (simp add: actions_model_float32_def)

lemma nth_actions_model_float32:
  assumes "i < length (concat_last cs)"
  shows "actions_model_float32 p draw cs ! i =
           forward_float32 (squash_bijector p) (raw_actions_model p draw cs ! i)"
  using assms by (simp add: actions_model_float32_def)

lemma length_raw_actions_model_row:
  assumes "i < length (concat_last cs)"
  shows "length (raw_actions_model p draw cs ! i) = output_shape p"
proof -
  obtain shift lsd where s: "shift_and_log_scale_diag p (concat_last cs ! i) = (shift, lsd)"
    by (cases "shift_and_log_scale_diag p (concat_last cs ! i)")
  show ?thesis
    unfolding nth_raw_actions_model [OF assms s] by (rule length_raw_row [OF s])
qed

lemma length_actions_model_float32_row:
  assumes "i < length (concat_last cs)"
  shows "length (actions_model_float32 p draw cs ! i) = output_shape p"
  unfolding nth_actions_model_float32 [OF assms] length_forward_float32_squash_bijector
  by (rule length_raw_actions_model_row [OF assms])

lemma rounded_row_bounds:
  assumes "squash p" "v \<in> set (forward_float32 (squash_bijector p) x)"
  shows "- 1 \<le> v \<and> v \<le> 1"
  using assms tanh_float32_bounds by (auto simp: squash_bijector_def)

text \<open>
  Claim C6, as the spec states it, fails on binary32 tensors: the policy with every
  kernel entry 10 has a pre-squash value above 600 on the conditions (1, 2), and the
  rounded \<open>tanh\<close> of it is exactly 1, which is not inside the open interval.
\<close>

theorem squashed_action_reaches_one:
  "squash (example_policy True 10) \<and>
   actions_float32 (example_policy True 10) half_draw [[[1, 2]]] = Inr [[1]] \<and>
   \<not> (- 1 < [[1 :: real]] ! 0 ! 0 \<and> [[1 :: real]] ! 0 ! 0 < 1)"
  using ex_clipped_saturates by (simp add: example_squash)

text \<open>
  Claim C6, amended.  For every action dimension and all weights, a call of \<open>actions\<close> on
  well-shaped conditions returns one row per batch element, every row of length A.  With
  squashing every entry lies in the closed interval from -1 to 1 once \<open>tanh\<close> is rounded
  to binary32, and strictly inside it in exact arithmetic; without squashing the rows
  are unconstrained: every real vector of length A is the row of some latent draw.
\<close>

theorem actions_shape_and_closed_range:
  assumes "conditions_ok p cs"
  shows "(\<exists>a. actions_float32 p draw cs = Inr a \<and>
              length a = length (hd cs) \<and>
              (\<forall>row \<in> set a. length row = output_shape p) \<and>
              (squash p \<longrightarrow> (\<forall>row \<in> set a. \<forall>v \<in> set row. - 1 \<le> v \<and> v \<le> 1))) \<and>
         (\<exists>a. actions p draw cs = Inr a \<and>
              length a = length (hd cs) \<and>
              (\<forall>row \<in> set a. length row = output_shape p) \<and>
              (squash p \<longrightarrow> (\<forall>row \<in> set a. \<forall>v \<in> set row. - 1 < v \<and> v < 1))) \<and>
         (\<not> squash p \<longrightarrow>
            (\<forall>i < length (hd cs). \<forall>y. length y = output_shape p \<longrightarrow>
               (\<exists>draw' a'. actions p draw' cs = Inr a' \<and> a' ! i = y)))"
proof -
  define a where "a = actions_model_float32 p draw cs"
  have la: "length a = length (concat_last cs)" by (simp add: a_def)
  have 1: "actions_float32 p draw cs = Inr a" using assms by (simp add: actions_float32_def a_def)
  have 2: "length a = length (hd cs)" using la length_concat_last [OF assms] by simp
  have 3: "\<forall>row \<in> set a. length row = output_shape p"
  proof
    fix row assume "row \<in> set a"
    then obtain i where i: "i < length a" "row = a ! i" by (auto simp: in_set_conv_nth)
    then show "length row = output_shape p"
      using la length_actions_model_float32_row [of i cs p draw] by (simp add: a_def)
  qed
  have 4: "squash p \<longrightarrow> (\<forall>row \<in> set a. \<forall>v \<in> set row. - 1 \<le> v \<and> v \<le> 1)"
  proof (intro impI ballI)
    fix row v assume sq: "squash p" and "row \<in> set a" and v: "v \<in> set row"
    then have "row \<in> set (map (forward_float32 (squash_bijector p)) (raw_actions_model p draw cs))"
      by (simp add: a_def actions_model_float32_def)
    then obtain x where "row = forward_float32 (squash_bijector p) x" by auto
    with v rounded_row_bounds [OF sq] show "- 1 \<le> v \<and> v \<le> 1" by blast
  qed
  have f: "\<exists>a. actions_float32 p draw cs = Inr a \<and>
              length a = length (hd cs) \<and>
              (\<forall>row \<in> set a. length row = output_shape p) \<and>
              (squash p \<longrightarrow> (\<forall>row \<in> set a. \<forall>v \<in> set row. - 1 \<le> v \<and> v \<le> 1))"
    apply (rule exI [of _ a])
    using 1 2 3 4
    apply (intro conjI)
    apply assumption+
    done
  from f actions_exact_shape_and_range [OF assms, of draw] show ?thesis by (intro conjI) simp_all
qed

theorem actions_shape_and_closed_range_witness:
  "conditions_ok (example_policy True 10) [[[1, 2]]] \<and> squash (example_policy True 10) \<and>
   (\<exists>a. actions_float32 (example_policy True 10) half_draw [[[1, 2]]] = Inr a \<and> length a = 1 \<and>
        (\<forall>row \<in> set a. length row = 1 \<and> (\<forall>v \<in> set row. - 1 \<le> v \<and> v \<le> 1))) \<and>
   (\<exists>a. actions (example_policy True 10) half_draw [[[1, 2]]] = Inr a \<and> length a = 1 \<and>
        (\<forall>row \<in> set a. length row = 1 \<and> (\<forall>v \<in> set row. - 1 < v \<and> v < 1))) \<and>
   conditions_ok (example_policy False (1 / 10)) [[[1, 2]]] \<and>
   \<not> squash (example_policy False (1 / 10)) \<and>
   (\<exists>draw' a'. actions (example_policy False (1 / 10)) draw' [[[1, 2]]] = Inr a' \<and> a' ! 0 = [5])"
proof -
  note t = actions_shape_and_closed_range [OF example_conditions_ok, of True 10 half_draw]
  have t1: "\<exists>a. actions_float32 (example_policy True 10) half_draw [[[1, 2]]] = Inr a \<and> length a = 1 \<and>
        (\<forall>row \<in> set a. length row = 1 \<and> (\<forall>v \<in> set row. - 1 \<le> v \<and> v \<le> 1))"
    using t [THEN conjunct1] by (simp add: example_squash example_output_shape) blast
  have t2: "\<exists>a. actions (example_policy True 10) half_draw [[[1, 2]]] = Inr a \<and> length a = 1 \<and>
        (\<forall>row \<in> set a. length row = 1 \<and> (\<forall>v \<in> set row. - 1 < v \<and> v < 1))"
    using t [THEN conjunct2, THEN conjunct1] by (simp add: example_squash example_output_shape) blast
  have l: "length [5 :: real] = output_shape (example_policy False (1 / 10))"
    by (simp add: example_output_shape)
  have ns: "\<not> squash (example_policy False (1 / 10))" by (simp add: example_squash)
  have z: "0 < length (hd [[[1, 2 :: real]]])" by simp
  from actions_shape_and_closed_range [OF example_conditions_ok, of False "1 / 10" half_draw]
  have "\<not> squash (example_policy False (1 / 10)) \<longrightarrow>
            (\<forall>i < length (hd [[[1, 2 :: real]]]). \<forall>y. length y = output_shape (example_policy False (1 / 10)) \<longrightarrow>
               (\<exists>draw' a'. actions (example_policy False (1 / 10)) draw' [[[1, 2]]] = Inr a' \<and> a' ! i = y))"
    by (elim conjE)
  with ns z l have f: "\<exists>draw' a'. actions (example_policy False (1 / 10)) draw' [[[1, 2]]] = Inr a' \<and> a' ! 0 = [5]"
    by blast
  from t1 t2 f ns show ?thesis
    using example_conditions_ok [of True 10] example_conditions_ok [of False "1 / 10"]
      example_squash [of True 10]
    by simp
qed

subsection \<open>Scoring what the sampling path returns\<close>

lemma inverse_Affine_exp_defined:
  "\<exists>x. inverse_bij (Affine shift (map exp lsd)) u = Some x"
  using exp_scale_nonzero [of lsd] by simp

lemma inverse_chain_defined_iff:
  "(\<exists>x. inverse_bij (Chain [squash_bijector p, Affine shift (map exp lsd)]) y = Some x) =
     (squash p \<longrightarrow> list_all (\<lambda>v. - 1 < v \<and> v < 1) y)"
proof (cases "squash p")
  case True
  then have sq: "squash_bijector p = SquashBijector" by (simp add: squash_bijector_def)
  show ?thesis
  proof (cases "list_all (\<lambda>v. - 1 < v \<and> v < 1) y")
    case False
    then have "inverse_bij (Chain [squash_bijector p, Affine shift (map exp lsd)]) y = None"
      unfolding sq inverse_Chain2 by simp
    then show ?thesis using False True by simp
  next
    case in_range: True
    have "inverse_bij (Chain [squash_bijector p, Affine shift (map exp lsd)]) y =
            inverse_bij (Affine shift (map exp lsd)) (map artanh y)"
      unfolding sq inverse_Chain2 using in_range by simp
    then show ?thesis using in_range inverse_Affine_exp_defined [of shift lsd "map artanh y"] by simp
  qed
next
  case False
  then have sq: "squash_bijector p = Identity" by (simp add: squash_bijector_def)
  have "inverse_bij (Chain [squash_bijector p, Affine shift (map exp lsd)]) y =
            inverse_bij (Affine shift (map exp lsd)) y"
    unfolding sq inverse_Chain2 by simp
  then show ?thesis using False inverse_Affine_exp_defined [of shift lsd y] by simp
qed

lemma log_pis_defined_iff:
  assumes "conditions_ok p cs" "actions_ok p cs acts" "i < length (hd cs)"
  shows "(\<exists>v. log_pis_model p cs acts ! i = [Some v]) =
           (squash p \<longrightarrow> list_all (\<lambda>v. - 1 < v \<and> v < 1) (acts ! i))"
proof -
  obtain shift lsd where s: "shift_and_log_scale_diag p (concat_last cs ! i) = (shift, lsd)"
    by (cases "shift_and_log_scale_diag p (concat_last cs ! i)")
  have i': "i < length (concat_last cs)" using assms(3) length_concat_last [OF assms(1)] by simp
  have i'': "i < length acts" using assms(2,3) by (simp add: actions_ok_def)
  have len: "length shift = length (acts ! i)" "length lsd = length (acts ! i)"
    using sld_lengths [OF s] actions_ok_row [OF assms(2,3)] by simp_all
  let ?chain = "Chain [squash_bijector p, Affine shift (map exp lsd)]"
  have "(\<exists>v. log_pis_model p cs acts ! i = [Some v]) =
          (\<exists>x. inverse_bij ?chain (acts ! i) = Some x)"
    unfolding nth_log_pis_model [OF i' i'' s] transformed_log_prob_chain [OF len]
    by (cases "inverse_bij ?chain (acts ! i)") simp_all
  then show ?thesis by (simp only: inverse_chain_defined_iff)
qed

lemma actions_model_float32_ok:
  assumes "conditions_ok p cs"
  shows "actions_ok p cs (actions_model_float32 p draw cs)"
proof -
  have "length (actions_model_float32 p draw cs) = length (hd cs)"
    using length_concat_last [OF assms] by simp
  moreover have "list_all (\<lambda>row. length row = output_shape p) (actions_model_float32 p draw cs)"
    unfolding list_all_length using length_actions_model_float32_row [of _ cs p draw] by simp
  ultimately show ?thesis by (simp add: actions_ok_def)
qed

lemma log_pis_sampled_value:
  assumes ok: "conditions_ok p cs" and i: "i < length (concat_last cs)"
  shows "log_pis_model p cs (actions_model p draw cs) ! i =
           [Some (base_distribution_log_prob (sample draw (output_shape p) (length (concat_last cs)) ! i) -
                  (sum_list (snd (shift_and_log_scale_diag p (concat_last cs ! i))) +
                   forward_log_det_jacobian (squash_bijector p) (raw_actions_model p draw cs ! i)))]"
proof -
  let ?sh = "fst (shift_and_log_scale_diag p (concat_last cs ! i))"
  let ?ls = "snd (shift_and_log_scale_diag p (concat_last cs ! i))"
  let ?lat = "map (draw i) [0..<output_shape p]"
  let ?chain = "Chain [squash_bijector p, Affine ?sh (map exp ?ls)]"
  have s: "shift_and_log_scale_diag p (concat_last cs ! i) = (?sh, ?ls)" by simp
  have ia: "i < length (actions_model p draw cs)" using i by simp
  have len: "length ?sh = length (actions_model p draw cs ! i)"
    "length ?ls = length (actions_model p draw cs ! i)"
    using sld_lengths [OF s] length_actions_model_row [OF i, of p draw] by simp_all
  have inv: "inverse_bij ?chain (actions_model p draw cs ! i) = Some ?lat"
    by (rule inverse_chain_sampled [OF i s])
  have raw: "raw_actions_model p draw cs ! i = forward (Affine ?sh (map exp ?ls)) ?lat"
    by (rule nth_raw_actions_model [OF i s])
  have fldj: "forward_log_det_jacobian ?chain ?lat =
                sum_list ?ls + forward_log_det_jacobian (squash_bijector p) (raw_actions_model p draw cs ! i)"
    unfolding raw by (simp only: fldj_Chain2 forward_log_det_jacobian.simps(1) sum_ln_exp)
  show ?thesis
    unfolding nth_log_pis_model [OF i ia s] transformed_log_prob_chain [OF len] inv option.case
      fldj nth_sample [OF i] ..
qed

text \<open>
  Claim C1, as the spec states it, fails on binary32 tensors: for the policy with every
  kernel entry 10 the sampling path returns the action 1, the rounded \<open>tanh\<close> of a value
  above 600, and the scoring path has no real number for it (\<open>atanh\<close> is infinite at 1).
\<close>

theorem sampled_action_scored_undefined:
  "actions_float32 (example_policy True 10) half_draw [[[1, 2]]] = Inr [[1]] \<and>
   log_pis (example_policy True 10) [[[1, 2]]] [[1]] = Inr [[None]]"
proof -
  have sq: "squash_bijector (example_policy True 10) = SquashBijector"
    by (simp add: squash_bijector_def example_squash)
  have "log_pis (example_policy True 10) [[[1, 2]]] [[1]] = Inr [[None]]"
    using example_conditions_ok [of True 10] example_actions_ok [of True 10 1]
    by (simp add: log_pis_def log_pis_model_def Let_def ex_clipped sq transformed_log_prob_def)
  with ex_clipped_saturates show ?thesis by simp
qed

text \<open>
  Claim C1, amended.  On well-shaped conditions \<open>log_pis\<close> accepts the batch that \<open>actions\<close>
  returned, and the score of a row is a real number exactly when squashing is off or
  every entry of the row lies strictly between -1 and 1.  In exact arithmetic that is
  every sampled row: its score is the base log-density of the latent vector drawn for
  it minus the log-det-Jacobian of the chain there (the sum of the log-scales plus the
  squash term at the raw action), and the chain's inverse image of the row is that
  latent vector.  With \<open>tanh\<close> rounded to binary32 it is every sampled row without an
  entry that has reached -1 or 1.
\<close>

theorem log_pis_of_sampled_actions:
  assumes "conditions_ok p cs"
  shows "(\<exists>a lp. actions p draw cs = Inr a \<and> log_pis p cs a = Inr lp \<and>
               length lp = length a \<and> length a = length (hd cs) \<and>
               (\<forall>i < length a.
                  lp ! i =
                    [Some (base_distribution_log_prob
                             (sample draw (output_shape p) (length a) ! i) -
                           (sum_list (snd (shift_and_log_scale_diag p (concat_last cs ! i))) +
                            forward_log_det_jacobian (squash_bijector p)
                              (raw_actions_model p draw cs ! i)))] \<and>
                  inverse_bij
                    (Chain [squash_bijector p,
                            Affine (fst (shift_and_log_scale_diag p (concat_last cs ! i)))
                              (map exp (snd (shift_and_log_scale_diag p (concat_last cs ! i))))])
                    (a ! i) = Some (sample draw (output_shape p) (length a) ! i))) \<and>
         (\<exists>a lp. actions_float32 p draw cs = Inr a \<and> log_pis p cs a = Inr lp \<and>
               length lp = length a \<and> length a = length (hd cs) \<and>
               (\<forall>i < length a.
                  (\<exists>v. lp ! i = [Some v]) =
                    (squash p \<longrightarrow> list_all (\<lambda>v. - 1 < v \<and> v < 1) (a ! i)))) \<and>
         (\<forall>acts. actions_ok p cs acts \<longrightarrow>
            (\<exists>lp. log_pis p cs acts = Inr lp \<and> length lp = length (hd cs) \<and>
                  (\<forall>i < length (hd cs).
                     (\<exists>v. lp ! i = [Some v]) =
                       (squash p \<longrightarrow> list_all (\<lambda>v. - 1 < v \<and> v < 1) (acts ! i)))))"
proof -
  note lc = length_concat_last [OF assms]
  have general: "\<exists>lp. log_pis p cs acts = Inr lp \<and> length lp = length (hd cs) \<and>
                  (\<forall>i < length (hd cs).
                     (\<exists>v. lp ! i = [Some v]) =
                       (squash p \<longrightarrow> list_all (\<lambda>v. - 1 < v \<and> v < 1) (acts ! i)))"
    if aok: "actions_ok p cs acts" for acts
  proof -
    note ok = log_pis_Inr [OF assms aok]
    show ?thesis
      apply (rule exI [of _ "log_pis_model p cs acts"])
      using ok(1) ok(2) log_pis_defined_iff [OF assms aok]
      apply (intro conjI allI impI)
      apply assumption+
      done
  qed
  have part3: "\<forall>acts. actions_ok p cs acts \<longrightarrow>
            (\<exists>lp. log_pis p cs acts = Inr lp \<and> length lp = length (hd cs) \<and>
                  (\<forall>i < length (hd cs).
                     (\<exists>v. lp ! i = [Some v]) =
                       (squash p \<longrightarrow> list_all (\<lambda>v. - 1 < v \<and> v < 1) (acts ! i))))"
    using general by blast
  have part2: "\<exists>a lp. actions_float32 p draw cs = Inr a \<and> log_pis p cs a = Inr lp \<and>
               length lp = length a \<and> length a = length (hd cs) \<and>
               (\<forall>i < length a.
                  (\<exists>v. lp ! i = [Some v]) =
                    (squash p \<longrightarrow> list_all (\<lambda>v. - 1 < v \<and> v < 1) (a ! i)))"
  proof -
    define a where "a = actions_model_float32 p draw cs"
    have aok: "actions_ok p cs a" unfolding a_def by (rule actions_model_float32_ok [OF assms])
    have la: "length a = length (hd cs)" using lc by (simp add: a_def)
    from general [OF aok] obtain lp where lp: "log_pis p cs a = Inr lp" "length lp = length (hd cs)"
      "\<forall>i < length (hd cs).
                     (\<exists>v. lp ! i = [Some v]) =
                       (squash p \<longrightarrow> list_all (\<lambda>v. - 1 < v \<and> v < 1) (a ! i))"
      by (elim exE conjE)
    have 1: "actions_float32 p draw cs = Inr a" using assms by (simp add: actions_float32_def a_def)
    show ?thesis
      apply (rule exI [of _ a], rule exI [of _ lp])
      using 1 lp la
      apply (intro conjI)
      apply simp_all
      done
  qed
  have part1: "\<exists>a lp. actions p draw cs = Inr a \<and> log_pis p cs a = Inr lp \<and>
               length lp = length a \<and> length a = length (hd cs) \<and>
               (\<forall>i < length a.
                  lp ! i =
                    [Some (base_distribution_log_prob
                             (sample draw (output_shape p) (length a) ! i) -
                           (sum_list (snd (shift_and_log_scale_diag p (concat_last cs ! i))) +
                            forward_log_det_jacobian (squash_bijector p)
                              (raw_actions_model p draw cs ! i)))] \<and>
                  inverse_bij
                    (Chain [squash_bijector p,
                            Affine (fst (shift_and_log_scale_diag p (concat_last cs ! i)))
                              (map exp (snd (shift_and_log_scale_diag p (concat_last cs ! i))))])
                    (a ! i) = Some (sample draw (output_shape p) (length a) ! i))"
  proof -
    define a where "a = actions_model p draw cs"
    define lp where "lp = log_pis_model p cs a"
    have la: "length a = length (concat_last cs)" by (simp add: a_def)
    have aok: "actions_ok p cs a" unfolding a_def by (rule actions_model_ok [OF assms])
    note ok = log_pis_Inr [OF assms aok]
    have 1: "actions p draw cs = Inr a" using assms by (simp add: actions_def a_def)
    have 2: "log_pis p cs a = Inr lp" unfolding lp_def by (rule ok(1))
    have 3: "length lp = length a" unfolding lp_def using ok(2,3) by simp
    have 4: "length a = length (hd cs)" by (rule ok(3))
    have 5: "\<forall>i < length a.
                  lp ! i =
                    [Some (base_distribution_log_prob
                             (sample draw (output_shape p) (length a) ! i) -
                           (sum_list (snd (shift_and_log_scale_diag p (concat_last cs ! i))) +
                            forward_log_det_jacobian (squash_bijector p)
                              (raw_actions_model p draw cs ! i)))] \<and>
                  inverse_bij
                    (Chain [squash_bijector p,
                            Affine (fst (shift_and_log_scale_diag p (concat_last cs ! i)))
                              (map exp (snd (shift_and_log_scale_diag p (concat_last cs ! i))))])
                    (a ! i) = Some (sample draw (output_shape p) (length a) ! i)"
    proof (intro allI impI conjI)
      fix i assume "i < length a"
      then have i: "i < length (concat_last cs)" using la by simp
      show "lp ! i =
                    [Some (base_distribution_log_prob
                             (sample draw (output_shape p) (length a) ! i) -
                           (sum_list (snd (shift_and_log_scale_diag p (concat_last cs ! i))) +
                            forward_log_det_jacobian (squash_bijector p)
                              (raw_actions_model p draw cs ! i)))]"
        unfolding lp_def a_def length_actions_model by (rule log_pis_sampled_value [OF assms i])
      show "inverse_bij
                    (Chain [squash_bijector p,
                            Affine (fst (shift_and_log_scale_diag p (concat_last cs ! i)))
                              (map exp (snd (shift_and_log_scale_diag p (concat_last cs ! i))))])
                    (a ! i) = Some (sample draw (output_shape p) (length a) ! i)"
        unfolding a_def length_actions_model nth_sample [OF i]
        by (rule inverse_chain_sampled [OF i]) simp
    qed
    show ?thesis
      apply (rule exI [of _ a], rule exI [of _ lp])
      using 1 2 3 4 5
      apply (intro conjI)
      apply assumption+
      done
  qed
  from part1 part2 part3 show ?thesis by (intro conjI)
qed

lemma ex_moderate_raw:
  "raw_actions_model (example_policy sq (1 / 10)) half_draw [[[1, 2]]] =
     [[3 / 50 + exp (3 / 50) * (1 / 2)]]"
  by (simp add: raw_actions_model_def Let_def ex_moderate sample_def example_output_shape
      half_draw_def)

theorem log_pis_of_sampled_actions_witness:
  "conditions_ok (example_policy True (1 / 10)) [[[1, 2]]] \<and>
   actions (example_policy True (1 / 10)) half_draw [[[1, 2]]] =
     Inr [[tanh (3 / 50 + exp (3 / 50) * (1 / 2))]] \<and>
   log_pis (example_policy True (1 / 10)) [[[1, 2]]] [[tanh (3 / 50 + exp (3 / 50) * (1 / 2))]] =
     Inr [[Some (base_distribution_log_prob [1 / 2] -
                 (3 / 50 +
                  SquashBijector_forward_log_det_jacobian (3 / 50 + exp (3 / 50) * (1 / 2))))]] \<and>
   actions_ok (example_policy True 10) [[[1, 2]]] [[1]] \<and>
   log_pis (example_policy True 10) [[[1, 2]]] [[1]] = Inr [[None]]"
proof -
  let ?p = "example_policy True (1 / 10)"
  let ?t = "tanh (3 / 50 + exp (3 / 50) * (1 / 2 :: real))"
  have h1: "conditions_ok ?p [[[1, 2]]]" by (rule example_conditions_ok)
  have sq: "squash_bijector ?p = SquashBijector"
    by (simp add: squash_bijector_def example_squash)
  have h2: "actions ?p half_draw [[[1, 2]]] = Inr [[?t]]"
    using h1 by (simp add: actions_def actions_model_def ex_moderate_raw sq)
  from log_pis_of_sampled_actions [OF h1, of half_draw, THEN conjunct1]
  obtain a lp where alp: "actions ?p half_draw [[[1, 2]]] = Inr a" "log_pis ?p [[[1, 2]]] a = Inr lp"
    "length lp = length a"
    "\<forall>i < length a.
        lp ! i =
          [Some (base_distribution_log_prob (sample half_draw (output_shape ?p) (length a) ! i) -
                 (sum_list (snd (shift_and_log_scale_diag ?p (concat_last [[[1, 2]]] ! i))) +
                  forward_log_det_jacobian (squash_bijector ?p)
                    (raw_actions_model ?p half_draw [[[1, 2]]] ! i)))] \<and>
        inverse_bij
          (Chain [squash_bijector ?p,
                  Affine (fst (shift_and_log_scale_diag ?p (concat_last [[[1, 2]]] ! i)))
                    (map exp (snd (shift_and_log_scale_diag ?p (concat_last [[[1, 2]]] ! i))))])
          (a ! i) = Some (sample half_draw (output_shape ?p) (length a) ! i)"
    by (elim exE conjE)
  from alp(1) h2 have a: "a = [[?t]]" by simp
  from alp(3) a obtain row where lp: "lp = [row]" by (cases lp) simp_all
  from alp(4) have "row =
     [Some (base_distribution_log_prob [1 / 2] -
                 (3 / 50 +
                  SquashBijector_forward_log_det_jacobian (3 / 50 + exp (3 / 50) * (1 / 2))))]"
    unfolding a lp
    by (simp add: sq ex_moderate ex_moderate_raw sample_def example_output_shape half_draw_def)
  with alp(2) a lp have v: "log_pis ?p [[[1, 2]]] [[?t]] =
     Inr [[Some (base_distribution_log_prob [1 / 2] -
                 (3 / 50 +
                  SquashBijector_forward_log_det_jacobian (3 / 50 + exp (3 / 50) * (1 / 2))))]]"
    by simp
  have sq10: "squash_bijector (example_policy True 10) = SquashBijector"
    by (simp add: squash_bijector_def example_squash)
  have n: "log_pis (example_policy True 10) [[[1, 2]]] [[1]] = Inr [[None]]"
    using example_conditions_ok [of True 10] example_actions_ok [of True 10 1]
    by (simp add: log_pis_def log_pis_model_def Let_def ex_clipped sq10 transformed_log_prob_def)
  from h1 h2 v n example_actions_ok [of True 10 1] show ?thesis by (intro conjI)
qed

subsection \<open>Repeated calls of the sampling path\<close>








end
